theory Spec2Isabelle
  imports Complex_Main "HOL-Library.Multiset" "HOL-Library.Stream" "HOL-Library.Product_Lexorder"
begin

section \<open>Data model of the bidding and order routes\<close>

text \<open>
  The marketplace keeps its working set in module-level arrays (\<open>bids\<close>,
  \<open>requirements\<close>, \<open>users\<close>, \<open>orders\<close>). The arrays are lists here, the
  rows are records, and every handler is a function from the arrays it reads to an
  error or the arrays it has written.

  Conventions of the embedding:
  \<^item> a JavaScript number is a rational (prices, quantities) or an integer (delivery
    times, instants); the arithmetic is exact, the rounding of IEEE doubles is not
    modelled;
  \<^item> an instant is the number of milliseconds since the epoch; the several
    \<open>new Date()\<close> and \<open>Date.now()\<close> reads of one handler run are one parameter
    \<open>now\<close>;
  \<^item> a field keeps its source name behind the initial of its row (\<open>b_status\<close>,
    \<open>r_status\<close>, \<open>o_status\<close>), since bids, requirements and orders share
    field names; the source's variable \<open>id\<close> is \<open>bidId\<close> or \<open>orderId\<close>;
  \<^item> status values are the strings the source compares and stores;
  \<^item> \<open>uuidv4()\<close> is a parameter supplying the generated identifier;
  \<^item> \<open>Math.random()\<close> is a stream of draws, each call taking the head;
  \<^item> a lookup in an object literal (\<open>exchangeRates[currency]\<close>) reads the
    literal's own keys.
\<close>

type_synonym instant = int

record bid =
  b_id :: string
  b_requirementId :: string
  b_exporterId :: string
  b_price :: rat
  b_currency :: string
  b_deliveryTime :: int
  b_deliveryTimeUnit :: string
  b_paymentTerms :: string
  b_deliveryTerms :: string
  b_additionalNotes :: string
  b_validUntil :: "instant option"
  b_status :: string
  b_createdAt :: instant
  b_updatedAt :: instant
  b_acceptedAt :: "instant option"

record requirement =
  r_id :: string
  r_importerId :: string
  r_title :: string
  r_description :: string
  r_category :: string
  r_quantity :: rat
  r_unit :: string
  r_targetPrice :: "rat option"
  r_currency :: string
  r_deliveryLocation :: string
  r_bidDeadline :: instant
  r_paymentTerms :: string
  r_deliveryTerms :: string
  r_status :: string
  r_bidCount :: int
  r_awardedBidId :: "string option"
  r_updatedAt :: instant

record user =
  u_id :: string
  u_createdAt :: instant

datatype error =
    HttpError nat string
  | ValidationErrors
  | Thrown string

text \<open>\<open>Array.prototype.findIndex\<close>: the first position whose element satisfies
  the predicate, \<open>None\<close> for the source's \<open>-1\<close>.\<close>

fun findIndex :: "('a \<Rightarrow> bool) \<Rightarrow> 'a list \<Rightarrow> nat option" where
  "findIndex P [] = None"
| "findIndex P (x # xs) =
     (if P x then Some 0 else map_option Suc (findIndex P xs))"

section \<open>Currency and time normalizer\<close>

definition exchangeRates :: "string \<rightharpoonup> rat" where
  "exchangeRates =
     [''USD'' \<mapsto> 1, ''EUR'' \<mapsto> 11 / 10, ''INR'' \<mapsto> 12 / 1000,
      ''GBP'' \<mapsto> 125 / 100, ''JPY'' \<mapsto> 67 / 10000, ''CNY'' \<mapsto> 14 / 100]"

text \<open>\<open>price * (exchangeRates[currency] || 1)\<close>: a missing key is \<open>undefined\<close>
  and a rate of zero would be falsy as well; both fall back to 1. The table is read by
  its own six keys; a name that an object inherits from its prototype (such as
  \<open>constructor\<close>) is not a currency code the validators admit and is outside
  the model.\<close>

definition convertToUSD :: "rat \<Rightarrow> string \<Rightarrow> rat" where
  "convertToUSD price currency =
     price * (case exchangeRates currency of
                None \<Rightarrow> 1
              | Some rate \<Rightarrow> if rate = 0 then 1 else rate)"



section \<open>Bid integrity validator\<close>

datatype integrity = Valid | Invalid string

text \<open>\<open>validateBidIntegrity(newBid, existingBids)\<close>; the module array
  \<open>requirements\<close> it reads is the first parameter. \<open>requirement.targetPrice\<close>
  is tested for truthiness: \<open>null\<close> and \<open>0\<close> both skip the price rule.\<close>

definition validateBidIntegrity ::
  "requirement list \<Rightarrow> bid \<Rightarrow> bid list \<Rightarrow> integrity" where
  "validateBidIntegrity requirements newBid existingBids =
     (let exporterBids =
            filter (\<lambda>b. b_exporterId b = b_exporterId newBid \<and>
                        b_requirementId b = b_requirementId newBid) existingBids
      in if length exporterBids > 0
         then Invalid ''Exporter has already submitted a bid for this requirement''
         else (case find (\<lambda>r. r_id r = b_requirementId newBid) requirements of
                 None \<Rightarrow> Valid
               | Some requirement \<Rightarrow>
                   (case r_targetPrice requirement of
                      None \<Rightarrow> Valid
                    | Some targetPrice \<Rightarrow>
                        if targetPrice = 0 then Valid
                        else (let targetPriceUSD =
                                    convertToUSD targetPrice (r_currency requirement);
                                  bidPriceUSD =
                                    convertToUSD (b_price newBid) (b_currency newBid)
                              in if bidPriceUSD < targetPriceUSD * (1 / 10)
                                 then Invalid ''Bid price is suspiciously low''
                                 else Valid))))"

section \<open>Bid ranking engine\<close>











section \<open>Bid lifecycle manager\<close>

record store =
  st_bids :: "bid list"
  st_requirements :: "requirement list"

text \<open>The arrays after a handler has run: the ones it wrote when it answered with
  success, the untouched ones when it answered with an error (every error reply of
  the handlers below is sent before the first write).\<close>

definition storeAfter :: "'s \<Rightarrow> error + 's \<Rightarrow> 's" where
  "storeAfter s result = (case result of Inl e \<Rightarrow> s | Inr s' \<Rightarrow> s')"

record bidPayload =
  p_requirementId :: string
  p_price :: rat
  p_currency :: string
  p_deliveryTime :: int
  p_deliveryTimeUnit :: string
  p_paymentTerms :: "string option"
  p_deliveryTerms :: "string option"
  p_additionalNotes :: "string option"
  p_validUntil :: "instant option"

text \<open>\<open>bidValidation\<close> on a body whose fields already have their types; the
  library predicate \<open>isUUID\<close> is a parameter.\<close>

definition bidValidation :: "(string \<Rightarrow> bool) \<Rightarrow> bidPayload \<Rightarrow> bool" where
  "bidValidation isUUID p =
     (p_requirementId p \<noteq> [] \<and> isUUID (p_requirementId p) \<and>
      0 \<le> p_price p \<and>
      p_currency p \<in> set [''USD'', ''EUR'', ''INR'', ''GBP'', ''JPY'', ''CNY''] \<and>
      1 \<le> p_deliveryTime p \<and>
      p_deliveryTimeUnit p \<in> set [''days'', ''weeks'', ''months''] \<and>
      (case p_additionalNotes p of None \<Rightarrow> True | Some n \<Rightarrow> length n \<le> 1000))"

definition orEmpty :: "string option \<Rightarrow> string" where
  "orEmpty v = (case v of None \<Rightarrow> [] | Some t \<Rightarrow> t)"

definition submitBid ::
  "(string \<Rightarrow> bool) \<Rightarrow> instant \<Rightarrow> string \<Rightarrow> string \<Rightarrow> bidPayload \<Rightarrow> store \<Rightarrow> error + store" where
  "submitBid isUUID now uuid userId p s =
     (if \<not> bidValidation isUUID p then Inl ValidationErrors
      else
        (case find (\<lambda>r. r_id r = p_requirementId p) (st_requirements s) of
           None \<Rightarrow> Inl (HttpError 404 ''Requirement not found'')
         | Some requirement \<Rightarrow>
             if r_status requirement \<noteq> ''active''
             then Inl (HttpError 400 ''Requirement is not accepting bids'')
             else if now > r_bidDeadline requirement
             then Inl (HttpError 400 ''Bid deadline has passed'')
             else if r_importerId requirement = userId
             then Inl (HttpError 400 ''Cannot bid on your own requirement'')
             else
               (let newBid =
                      \<lparr> b_id = uuid,
                         b_requirementId = p_requirementId p,
                         b_exporterId = userId,
                         b_price = p_price p,
                         b_currency = p_currency p,
                         b_deliveryTime = p_deliveryTime p,
                         b_deliveryTimeUnit = p_deliveryTimeUnit p,
                         b_paymentTerms = orEmpty (p_paymentTerms p),
                         b_deliveryTerms = orEmpty (p_deliveryTerms p),
                         b_additionalNotes = orEmpty (p_additionalNotes p),
                         b_validUntil = p_validUntil p,
                         b_status = ''active'',
                         b_createdAt = now,
                         b_updatedAt = now,
                         b_acceptedAt = None \<rparr>
                in case validateBidIntegrity (st_requirements s) newBid (st_bids s) of
                     Invalid reason \<Rightarrow> Inl (HttpError 400 reason)
                   | Valid \<Rightarrow>
                       Inr \<lparr> st_bids = st_bids s @ [newBid],
                             st_requirements =
                               (case findIndex (\<lambda>r. r_id r = p_requirementId p)
                                       (st_requirements s) of
                                  None \<Rightarrow> st_requirements s
                                | Some requirementIndex \<Rightarrow>
                                    (st_requirements s)
                                      [requirementIndex :=
                                         (st_requirements s ! requirementIndex)
                                           \<lparr> r_bidCount :=
                                               r_bidCount (st_requirements s ! requirementIndex) + 1,
                                             r_updatedAt := now \<rparr>]) \<rparr>)))"

text \<open>The object literal \<open>{ ...bid, price: ..., updatedAt: ... }\<close> that
  \<open>updateBid\<close> stores: \<open>price ? parseFloat(price) : bid.price\<close> and its
  siblings keep the stored value when the body's value is falsy (0, the empty string,
  absent).\<close>

definition updatedBid :: "instant \<Rightarrow> bidPayload \<Rightarrow> bid \<Rightarrow> bid" where
  "updatedBid now p bid =
     bid \<lparr> b_price := (if p_price p \<noteq> 0 then p_price p else b_price bid),
           b_currency := (if p_currency p \<noteq> [] then p_currency p else b_currency bid),
           b_deliveryTime :=
             (if p_deliveryTime p \<noteq> 0 then p_deliveryTime p else b_deliveryTime bid),
           b_deliveryTimeUnit :=
             (if p_deliveryTimeUnit p \<noteq> [] then p_deliveryTimeUnit p
              else b_deliveryTimeUnit bid),
           b_paymentTerms :=
             (case p_paymentTerms p of None \<Rightarrow> b_paymentTerms bid | Some t \<Rightarrow> t),
           b_deliveryTerms :=
             (case p_deliveryTerms p of None \<Rightarrow> b_deliveryTerms bid | Some t \<Rightarrow> t),
           b_additionalNotes :=
             (case p_additionalNotes p of None \<Rightarrow> b_additionalNotes bid | Some t \<Rightarrow> t),
           b_validUntil :=
             (case p_validUntil p of None \<Rightarrow> b_validUntil bid | Some v \<Rightarrow> Some v),
           b_updatedAt := now \<rparr>"

text \<open>\<open>updateBid\<close>: the checks on the stored bid and its requirement come before
  the validation of the body.\<close>

definition updateBid ::
  "(string \<Rightarrow> bool) \<Rightarrow> instant \<Rightarrow> string \<Rightarrow> string \<Rightarrow> bidPayload \<Rightarrow> store \<Rightarrow> error + store" where
  "updateBid isUUID now userId bidId p s =
     (case findIndex (\<lambda>b. b_id b = bidId \<and> b_exporterId b = userId) (st_bids s) of
        None \<Rightarrow> Inl (HttpError 404 ''Bid not found or unauthorized'')
      | Some bidIndex \<Rightarrow>
          (let bid = st_bids s ! bidIndex
           in if b_status bid \<noteq> ''active''
              then Inl (HttpError 400 ''Cannot update inactive bid'')
              else
                (case find (\<lambda>r. r_id r = b_requirementId bid) (st_requirements s) of
                   None \<Rightarrow> Inl (HttpError 400 ''Requirement is no longer accepting bids'')
                 | Some requirement \<Rightarrow>
                     if r_status requirement \<noteq> ''active''
                     then Inl (HttpError 400 ''Requirement is no longer accepting bids'')
                     else if now > r_bidDeadline requirement
                     then Inl (HttpError 400 ''Bid deadline has passed'')
                     else if \<not> bidValidation isUUID p then Inl ValidationErrors
                     else
                       Inr (s \<lparr> st_bids := (st_bids s) [bidIndex := updatedBid now p bid] \<rparr>))))"

text \<open>\<open>Math.max((bidCount || 1) - 1, 0)\<close>: a count of 0 is falsy and is read as 1.\<close>

definition withdrawBid :: "instant \<Rightarrow> string \<Rightarrow> string \<Rightarrow> store \<Rightarrow> error + store" where
  "withdrawBid now userId bidId s =
     (case findIndex (\<lambda>b. b_id b = bidId \<and> b_exporterId b = userId) (st_bids s) of
        None \<Rightarrow> Inl (HttpError 404 ''Bid not found or unauthorized'')
      | Some bidIndex \<Rightarrow>
          (let bid = st_bids s ! bidIndex
           in if b_status bid \<noteq> ''active''
              then Inl (HttpError 400 ''Cannot withdraw inactive bid'')
              else
                Inr \<lparr> st_bids =
                        (st_bids s)
                          [bidIndex := bid \<lparr> b_status := ''withdrawn'', b_updatedAt := now \<rparr>],
                      st_requirements =
                        (case findIndex (\<lambda>r. r_id r = b_requirementId bid)
                                (st_requirements s) of
                           None \<Rightarrow> st_requirements s
                         | Some requirementIndex \<Rightarrow>
                             (let requirement = st_requirements s ! requirementIndex
                              in (st_requirements s)
                                   [requirementIndex :=
                                      requirement
                                        \<lparr> r_bidCount :=
                                            max ((if r_bidCount requirement = 0 then 1
                                                  else r_bidCount requirement) - 1) 0,
                                          r_updatedAt := now \<rparr>])) \<rparr>))"

text \<open>\<open>acceptBid\<close>. The handler has no suspension point between its first check
  and its reply, so its writes are one transition of the store. \<open>findIndex\<close>
  repeats the search \<open>find\<close> has already won; were it to miss, the write to
  \<open>bids[-1]\<close> would throw into the handler's \<open>catch\<close>, which replies 500.\<close>

definition acceptBid :: "instant \<Rightarrow> string \<Rightarrow> string \<Rightarrow> store \<Rightarrow> error + store" where
  "acceptBid now userId bidId s =
     (case find (\<lambda>b. b_id b = bidId) (st_bids s) of
        None \<Rightarrow> Inl (HttpError 404 ''Bid not found'')
      | Some bid \<Rightarrow>
          (case find (\<lambda>r. r_id r = b_requirementId bid) (st_requirements s) of
             None \<Rightarrow> Inl (HttpError 403 ''Unauthorized to accept this bid'')
           | Some requirement \<Rightarrow>
               if r_importerId requirement \<noteq> userId
               then Inl (HttpError 403 ''Unauthorized to accept this bid'')
               else if r_status requirement \<noteq> ''active''
               then Inl (HttpError 400 ''Requirement is not active'')
               else if b_status bid \<noteq> ''active''
               then Inl (HttpError 400 ''Bid is not active'')
               else
                 (case findIndex (\<lambda>b. b_id b = bidId) (st_bids s) of
                    None \<Rightarrow> Inl (HttpError 500 ''Internal server error'')
                  | Some bidIndex \<Rightarrow>
                      (let bids1 =
                             (st_bids s)
                               [bidIndex :=
                                  (st_bids s ! bidIndex)
                                    \<lparr> b_status := ''accepted'',
                                      b_updatedAt := now,
                                      b_acceptedAt := Some now \<rparr>];
                           bids2 =
                             map (\<lambda>b. if b_requirementId b = b_requirementId bid \<and>
                                          b_id b \<noteq> bidId \<and> b_status b = ''active''
                                       then b \<lparr> b_status := ''rejected'', b_updatedAt := now \<rparr>
                                       else b) bids1
                       in Inr \<lparr> st_bids = bids2,
                                st_requirements =
                                  (case findIndex (\<lambda>r. r_id r = b_requirementId bid)
                                          (st_requirements s) of
                                     None \<Rightarrow> st_requirements s
                                   | Some requirementIndex \<Rightarrow>
                                       (st_requirements s)
                                         [requirementIndex :=
                                            (st_requirements s ! requirementIndex)
                                              \<lparr> r_status := ''awarded'',
                                                r_awardedBidId := Some bidId,
                                                r_updatedAt := now \<rparr>]) \<rparr>))))"

text \<open>The stores that submit, update, withdraw and accept requests can produce from
  a store \<open>s0\<close>, in any order and by any callers; a request answered with an error
  leaves the store where it was.\<close>

inductive reachableStore :: "store \<Rightarrow> store \<Rightarrow> bool" for s0 :: store where
  reach_init: "reachableStore s0 s0"
| reach_submit:
    "reachableStore s0 s \<Longrightarrow>
     reachableStore s0 (storeAfter s (submitBid isUUID now uuid userId p s))"
| reach_update:
    "reachableStore s0 s \<Longrightarrow>
     reachableStore s0 (storeAfter s (updateBid isUUID now userId bidId p s))"
| reach_withdraw:
    "reachableStore s0 s \<Longrightarrow>
     reachableStore s0 (storeAfter s (withdrawBid now userId bidId s))"
| reach_accept:
    "reachableStore s0 s \<Longrightarrow>
     reachableStore s0 (storeAfter s (acceptBid now userId bidId s))"

text \<open>The bids of a store on requirement \<open>R\<close> that hold status accepted.\<close>

definition acceptedOn :: "string \<Rightarrow> bid list \<Rightarrow> bid list" where
  "acceptedOn R bids =
     filter (\<lambda>b. b_requirementId b = R \<and> b_status b = ''accepted'') bids"

text \<open>The starting stores of the invariant: an accepted bid is on a requirement that
  is no longer active, and no requirement has two accepted bids. The store the module
  starts with has no accepted bid at all.\<close>

definition awardConsistent :: "store \<Rightarrow> bool" where
  "awardConsistent s =
     (list_all (\<lambda>b. b_status b = ''accepted'' \<longrightarrow>
                   (case find (\<lambda>r. r_id r = b_requirementId b) (st_requirements s) of
                      None \<Rightarrow> True
                    | Some r \<Rightarrow> r_status r \<noteq> ''active'')) (st_bids s) \<and>
      list_all (\<lambda>b. length (acceptedOn (b_requirementId b) (st_bids s)) \<le> 1) (st_bids s))"

section \<open>Order phase state machine\<close>

datatype phase = Confirmation | Payment | Production | Inspection | Shipping | Delivery

definition ORDER_PHASES :: "phase list" where
  "ORDER_PHASES = [Confirmation, Payment, Production, Inspection, Shipping, Delivery]"

text \<open>The names the requests carry. A name outside \<open>ORDER_PHASES\<close> never reaches
  the handlers' logic: the validator \<open>isIn(ORDER_PHASES)\<close> and the test
  \<open>ORDER_PHASES.includes(phase)\<close> answer it with status 400.\<close>

definition phaseOfName :: "string \<Rightarrow> phase option" where
  "phaseOfName name =
     (if name = ''confirmation'' then Some Confirmation
      else if name = ''payment'' then Some Payment
      else if name = ''production'' then Some Production
      else if name = ''inspection'' then Some Inspection
      else if name = ''shipping'' then Some Shipping
      else if name = ''delivery'' then Some Delivery
      else None)"

text \<open>\<open>Array.prototype.indexOf\<close>, with the source's \<open>-1\<close> for an absent
  element.\<close>

fun indexOf :: "'a list \<Rightarrow> 'a \<Rightarrow> int" where
  "indexOf [] x = - 1"
| "indexOf (y # ys) x =
     (if y = x then 0 else (let i = indexOf ys x in if i < 0 then - 1 else i + 1))"

record document =
  d_id :: string
  d_filename :: string
  d_originalName :: string
  d_path :: string
  d_size :: nat
  d_uploadedBy :: string
  d_uploadedAt :: instant

text \<open>An entry of \<open>req.files\<close>, together with the identifier \<open>uuidv4()\<close>
  generates for it.\<close>

record upload =
  f_uuid :: string
  f_filename :: string
  f_originalname :: string
  f_path :: string
  f_size :: nat

record phaseRecord =
  ph_status :: string
  ph_startedAt :: "instant option"
  ph_completedAt :: "instant option"
  ph_documents :: "document list"
  ph_notes :: string
  ph_updatedBy :: "string option"

record order =
  o_id :: string
  o_bidId :: string
  o_requirementId :: string
  o_exporterId :: string
  o_importerId :: string
  o_title :: string
  o_description :: string
  o_category :: string
  o_quantity :: rat
  o_unit :: string
  o_price :: rat
  o_currency :: string
  o_totalValue :: rat
  o_deliveryLocation :: string
  o_deliveryTime :: int
  o_deliveryTimeUnit :: string
  o_estimatedDelivery :: instant
  o_paymentTerms :: string
  o_deliveryTerms :: string
  o_currentPhase :: phase
  o_status :: string
  o_phases :: "phase \<Rightarrow> phaseRecord"
  o_createdAt :: instant
  o_updatedAt :: instant
  o_cancellationReason :: "string option"
  o_cancelledBy :: "string option"
  o_cancelledAt :: "instant option"

definition notStarted :: phaseRecord where
  "notStarted =
     \<lparr> ph_status = ''not_started'', ph_startedAt = None, ph_completedAt = None,
        ph_documents = [], ph_notes = [], ph_updatedBy = None \<rparr>"

text \<open>\<open>createOrderFromBid(bidId)\<close>; the arrays \<open>bids\<close>, \<open>requirements\<close>
  and \<open>users\<close> it reads and the array \<open>orders\<close> it pushes to are parameters.
  Each \<open>throw\<close> is an error value; the function returns the new order and the
  array after the push.\<close>

definition createOrderFromBid ::
  "instant \<Rightarrow> string \<Rightarrow> string \<Rightarrow> bid list \<Rightarrow> requirement list \<Rightarrow> user list \<Rightarrow>
   order list \<Rightarrow> error + (order \<times> order list)" where
  "createOrderFromBid now uuid bidId bids requirements users orders =
     (case find (\<lambda>b. b_id b = bidId \<and> b_status b = ''accepted'') bids of
        None \<Rightarrow> Inl (Thrown ''Accepted bid not found'')
      | Some bid \<Rightarrow>
          (case find (\<lambda>r. r_id r = b_requirementId bid) requirements of
             None \<Rightarrow> Inl (Thrown ''Requirement not found'')
           | Some requirement \<Rightarrow>
               if find (\<lambda>u. u_id u = b_exporterId bid) users = None \<or>
                  find (\<lambda>u. u_id u = r_importerId requirement) users = None
               then Inl (Thrown ''User not found'')
               else
                 (let newOrder =
                        \<lparr> o_id = uuid,
                           o_bidId = b_id bid,
                           o_requirementId = r_id requirement,
                           o_exporterId = b_exporterId bid,
                           o_importerId = r_importerId requirement,
                           o_title = r_title requirement,
                           o_description = r_description requirement,
                           o_category = r_category requirement,
                           o_quantity = r_quantity requirement,
                           o_unit = r_unit requirement,
                           o_price = b_price bid,
                           o_currency = b_currency bid,
                           o_totalValue = b_price bid * r_quantity requirement,
                           o_deliveryLocation = r_deliveryLocation requirement,
                           o_deliveryTime = b_deliveryTime bid,
                           o_deliveryTimeUnit = b_deliveryTimeUnit bid,
                           o_estimatedDelivery =
                             now + b_deliveryTime bid *
                               (if b_deliveryTimeUnit bid = ''days'' then 1
                                else if b_deliveryTimeUnit bid = ''weeks'' then 7
                                else 30) * 24 * 60 * 60 * 1000,
                           o_paymentTerms =
                             (if b_paymentTerms bid \<noteq> [] then b_paymentTerms bid
                              else r_paymentTerms requirement),
                           o_deliveryTerms =
                             (if b_deliveryTerms bid \<noteq> [] then b_deliveryTerms bid
                              else r_deliveryTerms requirement),
                           o_currentPhase = Confirmation,
                           o_status = ''active'',
                           o_phases =
                             (\<lambda>ph. notStarted)
                               (Confirmation :=
                                  \<lparr> ph_status = ''pending'', ph_startedAt = Some now,
                                     ph_completedAt = None, ph_documents = [],
                                     ph_notes = [], ph_updatedBy = None \<rparr>),
                           o_createdAt = now,
                           o_updatedAt = now,
                           o_cancellationReason = None,
                           o_cancelledBy = None,
                           o_cancelledAt = None \<rparr>
                  in Inr (newOrder, orders @ [newOrder]))))"

text \<open>The body of an update request: \<open>phase\<close>, \<open>status\<close>, \<open>notes\<close>,
  \<open>estimatedDelivery\<close>, and the uploaded files.\<close>

record orderUpdate =
  q_phase :: "string option"
  q_status :: "string option"
  q_notes :: "string option"
  q_estimatedDelivery :: "instant option"
  q_files :: "upload list"

definition orderUpdateValidation :: "orderUpdate \<Rightarrow> bool" where
  "orderUpdateValidation q =
     ((case q_phase q of None \<Rightarrow> True | Some name \<Rightarrow> phaseOfName name \<noteq> None) \<and>
      (case q_status q of
         None \<Rightarrow> True
       | Some st \<Rightarrow> st \<in> set [''active'', ''completed'', ''cancelled'', ''disputed'']) \<and>
      (case q_notes q of None \<Rightarrow> True | Some n \<Rightarrow> length n \<le> 2000))"

definition toDocument :: "string \<Rightarrow> instant \<Rightarrow> upload \<Rightarrow> document" where
  "toDocument userId now file =
     \<lparr> d_id = f_uuid file, d_filename = f_filename file,
        d_originalName = f_originalname file, d_path = f_path file,
        d_size = f_size file, d_uploadedBy = userId, d_uploadedAt = now \<rparr>"

text \<open>A write to one phase's record, \<open>order.phases[ph].field = ...\<close>.\<close>

definition onPhase :: "phase \<Rightarrow> (phaseRecord \<Rightarrow> phaseRecord) \<Rightarrow> order \<Rightarrow> order" where
  "onPhase ph f order = order \<lparr> o_phases := (o_phases order) (ph := f (o_phases order ph)) \<rparr>"

text \<open>The block \<open>if (phase) { ... }\<close> of \<open>updateOrderPhase\<close>: the two
  progression checks, the completion of the current phase, the start of the new one.\<close>

definition advancePhase :: "instant \<Rightarrow> string \<Rightarrow> phase \<Rightarrow> order \<Rightarrow> error + order" where
  "advancePhase now userId newPhase order =
     (let currentPhaseIndex = indexOf ORDER_PHASES (o_currentPhase order);
          newPhaseIndex = indexOf ORDER_PHASES newPhase
      in if newPhaseIndex < currentPhaseIndex
         then Inl (HttpError 400 ''Cannot move to previous phase'')
         else if newPhaseIndex > currentPhaseIndex + 1
         then Inl (HttpError 400 ''Cannot skip phases'')
         else
           (let order1 =
                  (if ph_status (o_phases order (o_currentPhase order)) = ''pending''
                   then onPhase (o_currentPhase order)
                          (\<lambda>r. r \<lparr> ph_status := ''completed'', ph_completedAt := Some now,
                                   ph_updatedBy := Some userId \<rparr>) order
                   else order);
                order2 =
                  (if newPhaseIndex > currentPhaseIndex
                   then onPhase newPhase
                          (\<lambda>r. r \<lparr> ph_status := ''pending'', ph_startedAt := Some now,
                                   ph_updatedBy := Some userId \<rparr>)
                          (order1 \<lparr> o_currentPhase := newPhase \<rparr>)
                   else order1)
            in Inr order2))"

text \<open>The rest of \<open>updateOrderPhase\<close> after the phase block: notes, documents
  and estimated delivery go to the phase that is current by then; the order completes
  when that phase is delivery and its record says completed.\<close>

definition applyUpdate :: "instant \<Rightarrow> string \<Rightarrow> orderUpdate \<Rightarrow> order \<Rightarrow> order" where
  "applyUpdate now userId q order =
     (let documents = map (toDocument userId now) (q_files q);
          order1 =
            (case q_notes q of
               None \<Rightarrow> order
             | Some notes \<Rightarrow>
                 if notes \<noteq> []
                 then onPhase (o_currentPhase order) (\<lambda>r. r \<lparr> ph_notes := notes \<rparr>) order
                 else order);
          order2 =
            (if length documents > 0
             then onPhase (o_currentPhase order1)
                    (\<lambda>r. r \<lparr> ph_documents := ph_documents r @ documents \<rparr>) order1
             else order1);
          order3 =
            (case q_estimatedDelivery q of
               None \<Rightarrow> order2
             | Some estimatedDelivery \<Rightarrow> order2 \<lparr> o_estimatedDelivery := estimatedDelivery \<rparr>);
          order4 =
            (onPhase (o_currentPhase order3) (\<lambda>r. r \<lparr> ph_updatedBy := Some userId \<rparr>) order3)
              \<lparr> o_updatedAt := now \<rparr>
      in if o_currentPhase order4 = Delivery \<and>
            ph_status (o_phases order4 Delivery) = ''completed''
         then order4 \<lparr> o_status := ''completed'' \<rparr>
         else order4)"

definition updateOrderPhase ::
  "instant \<Rightarrow> string \<Rightarrow> string \<Rightarrow> orderUpdate \<Rightarrow> order list \<Rightarrow> error + order list" where
  "updateOrderPhase now userId orderId q orders =
     (if \<not> orderUpdateValidation q then Inl ValidationErrors
      else
        (case findIndex (\<lambda>x. o_id x = orderId \<and>
                             (o_exporterId x = userId \<or> o_importerId x = userId)) orders of
           None \<Rightarrow> Inl (HttpError 404 ''Order not found or unauthorized'')
         | Some orderIndex \<Rightarrow>
             (let order = orders ! orderIndex
              in if o_status order \<noteq> ''active''
                 then Inl (HttpError 400 ''Cannot update inactive order'')
                 else
                   (case (case q_phase q of
                            None \<Rightarrow> Inr order
                          | Some name \<Rightarrow>
                              (case phaseOfName name of
                                 None \<Rightarrow> Inl ValidationErrors
                               | Some newPhase \<Rightarrow> advancePhase now userId newPhase order)) of
                      Inl e \<Rightarrow> Inl e
                    | Inr order1 \<Rightarrow>
                        Inr (orders [orderIndex := applyUpdate now userId q order1])))))"

definition uploadOrderDocuments ::
  "instant \<Rightarrow> string \<Rightarrow> string \<Rightarrow> string \<Rightarrow> upload list \<Rightarrow> order list \<Rightarrow> error + order list" where
  "uploadOrderDocuments now userId orderId name files orders =
     (case phaseOfName name of
        None \<Rightarrow> Inl (HttpError 400 ''Invalid phase'')
      | Some ph \<Rightarrow>
          (case findIndex (\<lambda>x. o_id x = orderId \<and>
                               (o_exporterId x = userId \<or> o_importerId x = userId)) orders of
             None \<Rightarrow> Inl (HttpError 404 ''Order not found or unauthorized'')
           | Some orderIndex \<Rightarrow>
               (let order = orders ! orderIndex
                in if o_status order \<noteq> ''active''
                   then Inl (HttpError 400 ''Cannot upload documents to inactive order'')
                   else
                     (let documents = map (toDocument userId now) files
                      in if length documents = 0
                         then Inl (HttpError 400 ''No documents uploaded'')
                         else
                           Inr (orders
                                  [orderIndex :=
                                     (onPhase ph
                                        (\<lambda>r. r \<lparr> ph_documents := ph_documents r @ documents,
                                                 ph_updatedBy := Some userId \<rparr>) order)
                                       \<lparr> o_updatedAt := now \<rparr>])))))"

definition cancelOrder ::
  "instant \<Rightarrow> string \<Rightarrow> string \<Rightarrow> string option \<Rightarrow> order list \<Rightarrow> error + order list" where
  "cancelOrder now userId orderId reason orders =
     (case findIndex (\<lambda>x. o_id x = orderId \<and>
                          (o_exporterId x = userId \<or> o_importerId x = userId)) orders of
        None \<Rightarrow> Inl (HttpError 404 ''Order not found or unauthorized'')
      | Some orderIndex \<Rightarrow>
          (let order = orders ! orderIndex
           in if o_status order \<noteq> ''active''
              then Inl (HttpError 400 ''Cannot cancel inactive order'')
              else
                (let currentPhaseIndex = indexOf ORDER_PHASES (o_currentPhase order)
                 in if currentPhaseIndex > 2
                    then Inl (HttpError 400 ''Cannot cancel order in current phase'')
                    else
                      Inr (orders
                             [orderIndex :=
                                order \<lparr> o_status := ''cancelled'',
                                        o_cancellationReason := Some (orEmpty reason),
                                        o_cancelledBy := Some userId,
                                        o_cancelledAt := Some now,
                                        o_updatedAt := now \<rparr>]))))"

text \<open>The order arrays that creations, phase updates, document uploads and
  cancellations can produce from an array \<open>orders0\<close>, in any order and by any
  callers. The bids, requirements and users a creation reads are whatever the other
  modules hold at that moment. The module starts with the empty array.\<close>

inductive ordersFrom :: "order list \<Rightarrow> order list \<Rightarrow> bool" for orders0 :: "order list" where
  orders_init: "ordersFrom orders0 orders0"
| orders_create:
    "ordersFrom orders0 orders \<Longrightarrow>
     createOrderFromBid now uuid bidId bids requirements users orders = Inr (newOrder, orders') \<Longrightarrow>
     ordersFrom orders0 orders'"
| orders_update:
    "ordersFrom orders0 orders \<Longrightarrow>
     ordersFrom orders0 (storeAfter orders (updateOrderPhase now userId orderId q orders))"
| orders_upload:
    "ordersFrom orders0 orders \<Longrightarrow>
     ordersFrom orders0
       (storeAfter orders (uploadOrderDocuments now userId orderId name files orders))"
| orders_cancel:
    "ordersFrom orders0 orders \<Longrightarrow>
     ordersFrom orders0 (storeAfter orders (cancelOrder now userId orderId reason orders))"

definition reachableOrders :: "order list \<Rightarrow> bool" where
  "reachableOrders orders = ordersFrom [] orders"

text \<open>The position of a phase in the fixed sequence.\<close>

definition phaseIndex :: "phase \<Rightarrow> int" where
  "phaseIndex ph = indexOf ORDER_PHASES ph"

text \<open>The checks of \<open>submitBid\<close> that come before the integrity validator:
  the body is valid, the requirement exists, is active, its deadline has not passed,
  and the caller is not its importer.\<close>

definition submitChecksPass ::
  "(string \<Rightarrow> bool) \<Rightarrow> instant \<Rightarrow> string \<Rightarrow> bidPayload \<Rightarrow> store \<Rightarrow> bool" where
  "submitChecksPass isUUID now userId p s =
     (bidValidation isUUID p \<and>
      (case find (\<lambda>r. r_id r = p_requirementId p) (st_requirements s) of
         None \<Rightarrow> False
       | Some requirement \<Rightarrow>
           r_status requirement = ''active'' \<and> now \<le> r_bidDeadline requirement \<and>
           r_importerId requirement \<noteq> userId))"

section \<open>Predicates of the statements\<close>

text \<open>The shape the phase records of an order keep: every phase before the current
  one is completed, every phase after it is not started, and the current phase is
  pending or completed.\<close>

definition phasesConsistent :: "order \<Rightarrow> bool" where
  "phasesConsistent order =
     (list_all (\<lambda>ph.
         (phaseIndex ph < phaseIndex (o_currentPhase order) \<longrightarrow>
            ph_status (o_phases order ph) = ''completed'') \<and>
         (phaseIndex (o_currentPhase order) < phaseIndex ph \<longrightarrow>
            ph_status (o_phases order ph) = ''not_started'')) ORDER_PHASES \<and>
      ph_status (o_phases order (o_currentPhase order)) \<in> set [''pending'', ''completed''])"

text \<open>Between two order arrays: no order is lost or moved, and no order's current
  phase has a lower position in the sequence.\<close>

definition neverBack :: "order list \<Rightarrow> order list \<Rightarrow> bool" where
  "neverBack orders orders' =
     (length orders \<le> length orders' \<and>
      (\<forall>j < length orders.
         o_id (orders' ! j) = o_id (orders ! j) \<and>
         phaseIndex (o_currentPhase (orders ! j)) \<le> phaseIndex (o_currentPhase (orders' ! j))))"

text \<open>What the award invariant reads from a store: the status the lookup
  \<open>requirements.find(r => r.id === R)\<close> sees, and for every bid its requirement
  and whether it is accepted.\<close>

definition reqStatus :: "requirement list \<Rightarrow> string \<Rightarrow> string option" where
  "reqStatus requirements R = map_option r_status (find (\<lambda>r. r_id r = R) requirements)"

definition acceptedFlags :: "bid list \<Rightarrow> (string \<times> bool) list" where
  "acceptedFlags bids = map (\<lambda>b. (b_requirementId b, b_status b = ''accepted'')) bids"

definition flagsOK :: "(string \<Rightarrow> string option) \<Rightarrow> (string \<times> bool) list \<Rightarrow> bool" where
  "flagsOK st fl =
     ((\<forall>j < length fl. snd (fl ! j) \<longrightarrow> st (fst (fl ! j)) \<noteq> Some ''active'') \<and>
      (\<forall>j < length fl. \<forall>k < length fl.
         snd (fl ! j) \<longrightarrow> snd (fl ! k) \<longrightarrow> fst (fl ! j) = fst (fl ! k) \<longrightarrow> j = k))"




section \<open>Sample data\<close>

text \<open>The shape \<open>isUUID\<close> accepts: 8-4-4-4-12 hexadecimal digits.\<close>

definition hexDigit :: "char \<Rightarrow> bool" where
  "hexDigit c = (c \<in> set ''0123456789abcdefABCDEF'')"

definition uuidShape :: "string \<Rightarrow> bool" where
  "uuidShape x =
     (length x = 36 \<and>
      list_all (\<lambda>i. if i \<in> set [8, 13, 18, 23] then x ! i = CHR ''-'' else hexDigit (x ! i))
        [0 ..< 36])"

definition sampleReqId :: string where
  "sampleReqId = ''11111111-1111-4111-8111-111111111111''"

definition sampleRequirement :: requirement where
  "sampleRequirement =
     \<lparr> r_id = sampleReqId, r_importerId = ''importer-1'', r_title = ''Coffee beans'',
        r_description = [], r_category = ''Food'', r_quantity = 5000, r_unit = ''kg'',
        r_targetPrice = Some 4, r_currency = ''USD'', r_deliveryLocation = ''New York'',
        r_bidDeadline = 1000, r_paymentTerms = [], r_deliveryTerms = [],
        r_status = ''active'', r_bidCount = 0, r_awardedBidId = None, r_updatedAt = 0 \<rparr>"

definition sampleBid :: "string \<Rightarrow> string \<Rightarrow> rat \<Rightarrow> string \<Rightarrow> string \<Rightarrow> bid" where
  "sampleBid bidId exporterId price currency status =
     \<lparr> b_id = bidId, b_requirementId = sampleReqId, b_exporterId = exporterId,
        b_price = price, b_currency = currency, b_deliveryTime = 3,
        b_deliveryTimeUnit = ''weeks'', b_paymentTerms = [], b_deliveryTerms = [],
        b_additionalNotes = [], b_validUntil = None, b_status = status,
        b_createdAt = 0, b_updatedAt = 0, b_acceptedAt = None \<rparr>"

definition samplePayload :: "rat \<Rightarrow> bidPayload" where
  "samplePayload price =
     \<lparr> p_requirementId = sampleReqId, p_price = price, p_currency = ''USD'',
        p_deliveryTime = 3, p_deliveryTimeUnit = ''weeks'', p_paymentTerms = None,
        p_deliveryTerms = None, p_additionalNotes = None, p_validUntil = None \<rparr>"

definition sampleUsers :: "user list" where
  "sampleUsers =
     [\<lparr> u_id = ''exporter-1'', u_createdAt = 0 \<rparr>,
      \<lparr> u_id = ''exporter-2'', u_createdAt = 0 \<rparr>,
      \<lparr> u_id = ''importer-1'', u_createdAt = 0 \<rparr>]"

definition sampleStore :: store where
  "sampleStore = \<lparr> st_bids = [], st_requirements = [sampleRequirement] \<rparr>"

text \<open>The sample store after exporter-1 has submitted a bid at 3 USD, and after that
  bid has been withdrawn.\<close>

definition storeSubmitted :: store where
  "storeSubmitted =
     storeAfter sampleStore
       (submitBid uuidShape 10 ''bid-1'' ''exporter-1'' (samplePayload 3) sampleStore)"

definition storeWithdrawn :: store where
  "storeWithdrawn =
     storeAfter storeSubmitted (withdrawBid 20 ''exporter-1'' ''bid-1'' storeSubmitted)"




text \<open>The sample store after the importer has accepted the submitted bid, and the
  order array after an order has been created from that bid.\<close>

definition storeAccepted :: store where
  "storeAccepted =
     storeAfter storeSubmitted (acceptBid 40 ''importer-1'' ''bid-1'' storeSubmitted)"

definition sampleCreated :: "error + (order \<times> order list)" where
  "sampleCreated =
     createOrderFromBid 50 ''order-1'' ''bid-1'' (st_bids storeAccepted)
       (st_requirements storeAccepted) sampleUsers []"

definition sampleOrders :: "order list" where
  "sampleOrders = (case sampleCreated of Inl e \<Rightarrow> [] | Inr (newOrder, orders) \<Rightarrow> orders)"

definition phaseRequest :: "string \<Rightarrow> orderUpdate" where
  "phaseRequest name =
     \<lparr> q_phase = Some name, q_status = None, q_notes = None,
        q_estimatedDelivery = None, q_files = [] \<rparr>"

text \<open>The sample order array after the exporter has sent an update naming the
  phase the order is already in.\<close>

definition ordersConfirmed :: "order list" where
  "ordersConfirmed =
     storeAfter sampleOrders
       (updateOrderPhase 60 ''exporter-1'' ''order-1'' (phaseRequest ''confirmation'')
          sampleOrders)"

section \<open>Properties of the normalizer and the ranking engine\<close>






subsection \<open>The sort keeps the bids and orders them by the two keys\<close>










subsection \<open>Where the order does not depend on the random draws\<close>











subsection \<open>The sample rows\<close>

lemma sampleRequirement_sel:
  "r_id sampleRequirement = sampleReqId"
  "r_importerId sampleRequirement = ''importer-1''"
  "r_targetPrice sampleRequirement = Some 4"
  "r_currency sampleRequirement = ''USD''"
  "r_status sampleRequirement = ''active''"
  "r_bidDeadline sampleRequirement = 1000"
  "r_quantity sampleRequirement = 5000"
  "r_bidCount sampleRequirement = 0"
  by (simp_all add: sampleRequirement_def)

lemma sampleBid_sel:
  "b_id (sampleBid i e p c st) = i"
  "b_requirementId (sampleBid i e p c st) = sampleReqId"
  "b_exporterId (sampleBid i e p c st) = e"
  "b_price (sampleBid i e p c st) = p"
  "b_currency (sampleBid i e p c st) = c"
  "b_deliveryTime (sampleBid i e p c st) = 3"
  "b_deliveryTimeUnit (sampleBid i e p c st) = ''weeks''"
  "b_status (sampleBid i e p c st) = st"
  by (simp_all add: sampleBid_def)

lemma samplePayload_sel:
  "p_requirementId (samplePayload x) = sampleReqId"
  "p_price (samplePayload x) = x"
  "p_currency (samplePayload x) = ''USD''"
  "p_deliveryTime (samplePayload x) = 3"
  "p_deliveryTimeUnit (samplePayload x) = ''weeks''"
  "p_paymentTerms (samplePayload x) = None"
  "p_deliveryTerms (samplePayload x) = None"
  "p_additionalNotes (samplePayload x) = None"
  "p_validUntil (samplePayload x) = None"
  by (simp_all add: samplePayload_def)

lemma uuid_sample: "uuidShape sampleReqId"
  by (simp add: uuidShape_def sampleReqId_def hexDigit_def upt_rec)

lemma payload_valid: "0 \<le> price \<Longrightarrow> bidValidation uuidShape (samplePayload price)"
  using uuid_sample by (simp add: bidValidation_def samplePayload_sel) (simp add: sampleReqId_def)






section \<open>Properties of the integrity validator\<close>

lemma findIndex_SomeD:
  "findIndex P xs = Some i \<Longrightarrow> i < length xs \<and> P (xs ! i) \<and> (\<forall>j<i. \<not> P (xs ! j))"
proof (induction xs arbitrary: i)
  case Nil
  then show ?case by simp
next
  case (Cons x xs)
  show ?case
  proof (cases "P x")
    case True
    with Cons.prems show ?thesis by simp
  next
    case False
    with Cons.prems obtain k where k: "findIndex P xs = Some k" "i = Suc k" by auto
    from Cons.IH [OF k(1)] False k(2) show ?thesis
      by (auto simp: nth_Cons split: nat.splits)
  qed
qed

lemma find_findIndex:
  "find P xs = Some x \<Longrightarrow> \<exists>i. findIndex P xs = Some i \<and> xs ! i = x"
  by (induction xs) (auto split: if_splits)

lemma validate_duplicate_iff:
  "validateBidIntegrity requirements newBid existingBids =
     Invalid ''Exporter has already submitted a bid for this requirement'' \<longleftrightarrow>
   (\<exists>b \<in> set existingBids. b_exporterId b = b_exporterId newBid \<and>
                            b_requirementId b = b_requirementId newBid)"
  by (auto simp: validateBidIntegrity_def Let_def filter_empty_conv split: option.splits)

lemma submit_blocked:
  assumes "b \<in> set (st_bids s)" "b_exporterId b = userId" "b_requirementId b = p_requirementId p"
  shows "(\<exists>e. submitBid isUUID now uuid userId p s = Inl e) \<and>
         (submitChecksPass isUUID now userId p s \<longrightarrow>
            submitBid isUUID now uuid userId p s =
              Inl (HttpError 400 ''Exporter has already submitted a bid for this requirement''))"
proof -
  have dup: "validateBidIntegrity rs nb (st_bids s) =
             Invalid ''Exporter has already submitted a bid for this requirement''"
    if "b_exporterId nb = userId" "b_requirementId nb = p_requirementId p" for rs nb
    using assms that unfolding validate_duplicate_iff by auto
  show ?thesis
    by (auto simp: submitBid_def submitChecksPass_def Let_def dup split: option.splits)
qed

lemma withdraw_keeps_row:
  assumes "withdrawBid now userId bidId s = Inr s1"
      and "findIndex (\<lambda>b. b_id b = bidId \<and> b_exporterId b = userId) (st_bids s) = Some i"
  shows "st_bids s1 = (st_bids s) [i := (st_bids s ! i) \<lparr> b_status := ''withdrawn'', b_updatedAt := now \<rparr>]"
  using assms by (auto simp: withdrawBid_def Let_def split: if_splits)

lemma submit_appends:
  assumes "submitBid isUUID now uuid userId p s = Inr s1"
  shows "\<exists>nb. st_bids s1 = st_bids s @ [nb] \<and> b_exporterId nb = userId \<and>
              b_requirementId nb = p_requirementId p \<and> b_status nb = ''active'' \<and>
              b_id nb = uuid \<and> b_deliveryTimeUnit nb = p_deliveryTimeUnit p"
  using assms by (auto simp: submitBid_def Let_def split: if_splits option.splits integrity.splits)

lemma storeSubmitted_bids:
  "st_bids storeSubmitted =
     [(sampleBid ''bid-1'' ''exporter-1'' 3 ''USD'' ''active'') \<lparr> b_createdAt := 10, b_updatedAt := 10 \<rparr>]"
  by (simp add: storeSubmitted_def submitBid_def payload_valid sampleStore_def
      samplePayload_sel sampleRequirement_def validateBidIntegrity_def convertToUSD_def
      exchangeRates_def storeAfter_def sampleBid_def orEmpty_def)

lemma storeSubmitted_reqs:
  "st_requirements storeSubmitted = [sampleRequirement \<lparr> r_bidCount := 1, r_updatedAt := 10 \<rparr>]"
  by (simp add: storeSubmitted_def submitBid_def payload_valid sampleStore_def
      samplePayload_sel sampleRequirement_def validateBidIntegrity_def convertToUSD_def
      exchangeRates_def storeAfter_def sampleBid_def orEmpty_def)

lemma storeWithdrawn_bids:
  "st_bids storeWithdrawn =
     [(sampleBid ''bid-1'' ''exporter-1'' 3 ''USD'' ''withdrawn'') \<lparr> b_createdAt := 10, b_updatedAt := 20 \<rparr>]"
  by (simp add: storeWithdrawn_def withdrawBid_def storeSubmitted_bids storeSubmitted_reqs
      storeAfter_def sampleBid_def sampleRequirement_def)

lemma storeWithdrawn_reqs:
  "st_requirements storeWithdrawn = [sampleRequirement \<lparr> r_bidCount := 0, r_updatedAt := 20 \<rparr>]"
  by (simp add: storeWithdrawn_def withdrawBid_def storeSubmitted_bids storeSubmitted_reqs
      storeAfter_def sampleBid_def sampleRequirement_def)

lemma withdraw_sample:
  "withdrawBid 20 ''exporter-1'' ''bid-1'' storeSubmitted = Inr storeWithdrawn"
  by (simp add: storeWithdrawn_def withdrawBid_def storeSubmitted_bids storeSubmitted_reqs
      storeAfter_def sampleBid_sel)

lemma submit_sample:
  "submitBid uuidShape 10 ''bid-1'' ''exporter-1'' (samplePayload 3) sampleStore = Inr storeSubmitted"
  by (simp add: storeSubmitted_def submitBid_def payload_valid sampleStore_def
      samplePayload_sel sampleRequirement_sel validateBidIntegrity_def convertToUSD_def
      exchangeRates_def storeAfter_def sampleBid_def orEmpty_def)

text \<open>
  Claim C3, as stated: after an exporter's only bid on a requirement is withdrawn, a
  resubmission by the same exporter passes the duplicate-exporter rule. The rule
  filters the existing bids by exporter and requirement and not by status: in the
  sample store whose single bid has been withdrawn, the exporter's new submission is
  answered 400 with the duplicate reason.
\<close>

theorem duplicate_rule_withdrawn_counterexample:
  "b_status (hd (st_bids storeWithdrawn)) = ''withdrawn''
   \<and> length (st_bids storeWithdrawn) = 1
   \<and> submitBid uuidShape 30 ''bid-2'' ''exporter-1'' (samplePayload 3) storeWithdrawn =
       Inl (HttpError 400 ''Exporter has already submitted a bid for this requirement'')
   \<and> validateBidIntegrity (st_requirements storeWithdrawn)
       (sampleBid ''bid-2'' ''exporter-1'' 3 ''USD'' ''active'') (st_bids storeWithdrawn) =
       Invalid ''Exporter has already submitted a bid for this requirement''"
  by (simp add: submitBid_def payload_valid storeWithdrawn_bids storeWithdrawn_reqs
      samplePayload_sel sampleRequirement_sel validateBidIntegrity_def sampleBid_sel)

text \<open>
  Claim C3, amended. The duplicate-exporter rule rejects a candidate bid exactly when
  some existing bid by the same exporter on the same requirement is in the store,
  whatever its status. After an exporter's bid on a requirement has been withdrawn, a
  resubmission by that exporter on that requirement is never admitted and, once it
  passes the checks that precede the validator, is rejected with the duplicate
  integrity-violation reason; so is a second submission without withdrawal.
\<close>

theorem duplicate_rule_any_status:
  "(validateBidIntegrity requirements newBid existingBids =
      Invalid ''Exporter has already submitted a bid for this requirement'') =
     (\<exists>b \<in> set existingBids. b_exporterId b = b_exporterId newBid \<and>
                              b_requirementId b = b_requirementId newBid)
   \<and> (withdrawBid now userId bidId s = Inr s1 \<longrightarrow>
        findIndex (\<lambda>b. b_id b = bidId \<and> b_exporterId b = userId) (st_bids s) = Some i \<longrightarrow>
        p_requirementId p = b_requirementId (st_bids s ! i) \<longrightarrow>
          b_status (st_bids s1 ! i) = ''withdrawn'' \<and>
          (\<exists>e. submitBid isUUID now1 uuid userId p s1 = Inl e) \<and>
          (submitChecksPass isUUID now1 userId p s1 \<longrightarrow>
             submitBid isUUID now1 uuid userId p s1 =
               Inl (HttpError 400 ''Exporter has already submitted a bid for this requirement'')))
   \<and> (submitBid isUUID2 now2 uuid2 userId2 p2 s2 = Inr s3 \<longrightarrow>
        p_requirementId p3 = p_requirementId p2 \<longrightarrow>
          (\<exists>e. submitBid isUUID3 now3 uuid3 userId2 p3 s3 = Inl e) \<and>
          (submitChecksPass isUUID3 now3 userId2 p3 s3 \<longrightarrow>
             submitBid isUUID3 now3 uuid3 userId2 p3 s3 =
               Inl (HttpError 400 ''Exporter has already submitted a bid for this requirement'')))"
proof (intro conjI impI)
  show "(validateBidIntegrity requirements newBid existingBids =
      Invalid ''Exporter has already submitted a bid for this requirement'') =
     (\<exists>b \<in> set existingBids. b_exporterId b = b_exporterId newBid \<and>
                              b_requirementId b = b_requirementId newBid)"
    by (rule validate_duplicate_iff)
next
  assume w: "withdrawBid now userId bidId s = Inr s1"
     and i: "findIndex (\<lambda>b. b_id b = bidId \<and> b_exporterId b = userId) (st_bids s) = Some i"
     and p: "p_requirementId p = b_requirementId (st_bids s ! i)"
  note row = withdraw_keeps_row [OF w i]
  from findIndex_SomeD [OF i] have il: "i < length (st_bids s)" and ex: "b_exporterId (st_bids s ! i) = userId"
    by auto
  show st: "b_status (st_bids s1 ! i) = ''withdrawn''" using row il by simp
  have mem: "st_bids s1 ! i \<in> set (st_bids s1)" using row il by (simp add: set_update_memI)
  have e1: "b_exporterId (st_bids s1 ! i) = userId" using row il ex by simp
  have r1: "b_requirementId (st_bids s1 ! i) = p_requirementId p" using row il p by simp
  from submit_blocked [OF mem e1 r1, of isUUID now1 uuid]
  show "\<exists>e. submitBid isUUID now1 uuid userId p s1 = Inl e" by blast
  assume "submitChecksPass isUUID now1 userId p s1"
  with submit_blocked [OF mem e1 r1, of isUUID now1 uuid]
  show "submitBid isUUID now1 uuid userId p s1 =
               Inl (HttpError 400 ''Exporter has already submitted a bid for this requirement'')"
    by blast
next
  assume sub: "submitBid isUUID2 now2 uuid2 userId2 p2 s2 = Inr s3"
     and p: "p_requirementId p3 = p_requirementId p2"
  from submit_appends [OF sub] obtain nb where nb: "st_bids s3 = st_bids s2 @ [nb]"
    "b_exporterId nb = userId2" "b_requirementId nb = p_requirementId p2" by blast
  then have mem: "nb \<in> set (st_bids s3)" and r: "b_requirementId nb = p_requirementId p3"
    using p by simp_all
  from submit_blocked [OF mem nb(2) r, of isUUID3 now3 uuid3]
  show "\<exists>e. submitBid isUUID3 now3 uuid3 userId2 p3 s3 = Inl e" by blast
  assume "submitChecksPass isUUID3 now3 userId2 p3 s3"
  with submit_blocked [OF mem nb(2) r, of isUUID3 now3 uuid3]
  show "submitBid isUUID3 now3 uuid3 userId2 p3 s3 =
               Inl (HttpError 400 ''Exporter has already submitted a bid for this requirement'')"
    by blast
qed

theorem duplicate_rule_any_status_witness:
  "withdrawBid 20 ''exporter-1'' ''bid-1'' storeSubmitted = Inr storeWithdrawn
   \<and> findIndex (\<lambda>b. b_id b = ''bid-1'' \<and> b_exporterId b = ''exporter-1'') (st_bids storeSubmitted) = Some 0
   \<and> submitChecksPass uuidShape 30 ''exporter-1'' (samplePayload 3) storeWithdrawn
   \<and> submitBid uuidShape 30 ''bid-2'' ''exporter-1'' (samplePayload 3) storeWithdrawn =
        Inl (HttpError 400 ''Exporter has already submitted a bid for this requirement'')
   \<and> submitBid uuidShape 10 ''bid-1'' ''exporter-1'' (samplePayload 3) sampleStore = Inr storeSubmitted
   \<and> submitChecksPass uuidShape 15 ''exporter-1'' (samplePayload 2) storeSubmitted
   \<and> submitBid uuidShape 15 ''bid-3'' ''exporter-1'' (samplePayload 2) storeSubmitted =
        Inl (HttpError 400 ''Exporter has already submitted a bid for this requirement'')"
proof -
  have w: "withdrawBid 20 ''exporter-1'' ''bid-1'' storeSubmitted = Inr storeWithdrawn"
    by (rule withdraw_sample)
  have i: "findIndex (\<lambda>b. b_id b = ''bid-1'' \<and> b_exporterId b = ''exporter-1'') (st_bids storeSubmitted) = Some 0"
    by (simp add: storeSubmitted_bids sampleBid_sel)
  have r: "p_requirementId (samplePayload 3) = b_requirementId (st_bids storeSubmitted ! 0)"
    by (simp add: storeSubmitted_bids sampleBid_sel samplePayload_sel)
  have c: "submitChecksPass uuidShape 30 ''exporter-1'' (samplePayload 3) storeWithdrawn"
    by (simp add: submitChecksPass_def payload_valid storeWithdrawn_reqs samplePayload_sel
        sampleRequirement_sel)
  have s: "submitBid uuidShape 10 ''bid-1'' ''exporter-1'' (samplePayload 3) sampleStore = Inr storeSubmitted"
    by (rule submit_sample)
  have r2: "p_requirementId (samplePayload 2) = p_requirementId (samplePayload 3)"
    by (simp add: samplePayload_sel)
  have c2: "submitChecksPass uuidShape 15 ''exporter-1'' (samplePayload 2) storeSubmitted"
    by (simp add: submitChecksPass_def payload_valid storeSubmitted_reqs samplePayload_sel
        sampleRequirement_sel)
  from duplicate_rule_any_status [of _ _ _ 20 "''exporter-1''" "''bid-1''" storeSubmitted
         storeWithdrawn 0 "samplePayload 3" uuidShape 30 "''bid-2''"
         uuidShape 10 "''bid-1''" "''exporter-1''" "samplePayload 3" sampleStore storeSubmitted
         "samplePayload 2" uuidShape 15 "''bid-3''"]
       w i r c s r2 c2
  show ?thesis by blast
qed



section \<open>Properties of the bid lifecycle manager\<close>

lemma storeAccepted_bids:
  "st_bids storeAccepted =
     [(sampleBid ''bid-1'' ''exporter-1'' 3 ''USD'' ''accepted'')
        \<lparr> b_createdAt := 10, b_updatedAt := 40, b_acceptedAt := Some 40 \<rparr>]"
  by (simp add: storeAccepted_def acceptBid_def storeSubmitted_bids storeSubmitted_reqs
      storeAfter_def sampleBid_def sampleRequirement_def)

lemma storeAccepted_reqs:
  "st_requirements storeAccepted =
     [sampleRequirement \<lparr> r_status := ''awarded'', r_bidCount := 1,
                          r_awardedBidId := Some ''bid-1'', r_updatedAt := 40 \<rparr>]"
  by (simp add: storeAccepted_def acceptBid_def storeSubmitted_bids storeSubmitted_reqs
      storeAfter_def sampleBid_def sampleRequirement_def)

lemma accept_sample:
  "acceptBid 40 ''importer-1'' ''bid-1'' storeSubmitted = Inr storeAccepted"
  by (simp add: storeAccepted_def acceptBid_def storeSubmitted_bids storeSubmitted_reqs
      storeAfter_def sampleBid_def sampleRequirement_def)

lemma find_conv_findIndex: "find P xs = map_option (nth xs) (findIndex P xs)"
  by (induction xs) (simp_all add: option.map_comp comp_def)

lemma findIndex_update_same:
  assumes "k < length xs" "P x = P (xs ! k)"
  shows "findIndex P (xs [k := x]) = findIndex P xs"
  using assms
proof (induction xs arbitrary: k)
  case Nil
  then show ?case by simp
next
  case (Cons y ys)
  then show ?case by (cases k) simp_all
qed

lemma reqStatus_update:
  assumes "k < length rs" "r_id r = r_id (rs ! k)"
  shows "reqStatus (rs [k := r]) R =
           (if findIndex (\<lambda>x. r_id x = R) rs = Some k then Some (r_status r) else reqStatus rs R)"
proof -
  have same: "findIndex (\<lambda>x. r_id x = R) (rs [k := r]) = findIndex (\<lambda>x. r_id x = R) rs"
    using assms by (intro findIndex_update_same) simp_all
  show ?thesis
  proof (cases "findIndex (\<lambda>x. r_id x = R) rs")
    case None
    then show ?thesis by (simp add: reqStatus_def find_conv_findIndex same)
  next
    case (Some i)
    from findIndex_SomeD [OF Some] have "i < length rs" by simp
    then show ?thesis
      using assms(1) by (simp add: reqStatus_def find_conv_findIndex same Some nth_list_update)
  qed
qed

lemma filter_le_one_iff:
  "length (filter P xs) \<le> 1 \<longleftrightarrow>
     (\<forall>j < length xs. \<forall>k < length xs. P (xs ! j) \<longrightarrow> P (xs ! k) \<longrightarrow> j = k)"
proof (induction xs)
  case Nil
  then show ?case by simp
next
  case (Cons x xs)
  show ?case
  proof (cases "P x")
    case True
    have "(\<forall>j < length (x # xs). \<forall>k < length (x # xs).
              P ((x # xs) ! j) \<longrightarrow> P ((x # xs) ! k) \<longrightarrow> j = k) \<longleftrightarrow> (\<forall>y \<in> set xs. \<not> P y)"
    proof
      assume a: "\<forall>j < length (x # xs). \<forall>k < length (x # xs).
              P ((x # xs) ! j) \<longrightarrow> P ((x # xs) ! k) \<longrightarrow> j = k"
      show "\<forall>y \<in> set xs. \<not> P y"
      proof
        fix y assume "y \<in> set xs"
        then obtain n where n: "n < length xs" "xs ! n = y" by (auto simp: in_set_conv_nth)
        show "\<not> P y"
        proof
          assume "P y"
          with a [rule_format, of 0 "Suc n"] True n show False by simp
        qed
      qed
    next
      assume n: "\<forall>y \<in> set xs. \<not> P y"
      show "\<forall>j < length (x # xs). \<forall>k < length (x # xs).
              P ((x # xs) ! j) \<longrightarrow> P ((x # xs) ! k) \<longrightarrow> j = k"
      proof (intro allI impI)
        fix j k assume "j < length (x # xs)" "k < length (x # xs)"
          "P ((x # xs) ! j)" "P ((x # xs) ! k)"
        with n have "j = 0" "k = 0" by (auto simp: nth_Cons split: nat.splits)
        then show "j = k" by simp
      qed
    qed
    with True show ?thesis by (simp add: filter_empty_conv)
  next
    case False
    have "(\<forall>j < length (x # xs). \<forall>k < length (x # xs).
              P ((x # xs) ! j) \<longrightarrow> P ((x # xs) ! k) \<longrightarrow> j = k) \<longleftrightarrow>
          (\<forall>j < length xs. \<forall>k < length xs. P (xs ! j) \<longrightarrow> P (xs ! k) \<longrightarrow> j = k)"
    proof
      assume a: "\<forall>j < length (x # xs). \<forall>k < length (x # xs).
              P ((x # xs) ! j) \<longrightarrow> P ((x # xs) ! k) \<longrightarrow> j = k"
      show "\<forall>j < length xs. \<forall>k < length xs. P (xs ! j) \<longrightarrow> P (xs ! k) \<longrightarrow> j = k"
      proof (intro allI impI)
        fix j k assume "j < length xs" "k < length xs" "P (xs ! j)" "P (xs ! k)"
        with a [rule_format, of "Suc j" "Suc k"] show "j = k" by simp
      qed
    next
      assume a: "\<forall>j < length xs. \<forall>k < length xs. P (xs ! j) \<longrightarrow> P (xs ! k) \<longrightarrow> j = k"
      show "\<forall>j < length (x # xs). \<forall>k < length (x # xs).
              P ((x # xs) ! j) \<longrightarrow> P ((x # xs) ! k) \<longrightarrow> j = k"
      proof (intro allI impI)
        fix j k assume h: "j < length (x # xs)" "k < length (x # xs)"
          "P ((x # xs) ! j)" "P ((x # xs) ! k)"
        with False obtain j' k' where "j = Suc j'" "k = Suc k'"
          by (cases j; cases k) auto
        with h a [rule_format, of j' k'] show "j = k" by simp
      qed
    qed
    with False Cons.IH show ?thesis by simp
  qed
qed

lemma flagsOK_append:
  "flagsOK st fl \<Longrightarrow> flagsOK st (fl @ [(R, False)])"
  unfolding flagsOK_def
  by (auto simp: nth_append less_Suc_eq)

lemma flagsOK_accept:
  assumes ok: "flagsOK st fl" and act: "st R = Some ''active''"
      and i: "i < length fl" "fst (fl ! i) = R"
      and st': "st' R \<noteq> Some ''active''" "\<And>X. X \<noteq> R \<Longrightarrow> st' X = st X"
  shows "flagsOK st' (fl [i := (R, True)])"
proof -
  from ok act have none: "\<forall>j < length fl. snd (fl ! j) \<longrightarrow> fst (fl ! j) \<noteq> R"
    unfolding flagsOK_def by auto
  show ?thesis
    unfolding flagsOK_def
  proof (intro conjI allI impI)
    fix j assume j: "j < length (fl [i := (R, True)])" "snd (fl [i := (R, True)] ! j)"
    show "st' (fst (fl [i := (R, True)] ! j)) \<noteq> Some ''active''"
    proof (cases "j = i")
      case True
      with i st'(1) show ?thesis by simp
    next
      case False
      with j have s: "snd (fl ! j)" "j < length fl" by simp_all
      with none have "fst (fl ! j) \<noteq> R" by blast
      with st'(2) ok s False show ?thesis unfolding flagsOK_def by simp
    qed
  next
    fix j k assume h: "j < length (fl [i := (R, True)])" "k < length (fl [i := (R, True)])"
       "snd (fl [i := (R, True)] ! j)" "snd (fl [i := (R, True)] ! k)"
       "fst (fl [i := (R, True)] ! j) = fst (fl [i := (R, True)] ! k)"
    show "j = k"
    proof (cases "j = i \<or> k = i")
      case True
      with h i none show ?thesis
        by (auto simp: nth_list_update split: if_splits)
    next
      case False
      with h ok show ?thesis unfolding flagsOK_def by (simp add: nth_list_update)
    qed
  qed
qed

lemma acceptedOn_flags:
  "length (acceptedOn R bids) \<le> 1 \<longleftrightarrow>
     (\<forall>j < length bids. \<forall>k < length bids.
        b_requirementId (bids ! j) = R \<and> b_status (bids ! j) = ''accepted'' \<longrightarrow>
        b_requirementId (bids ! k) = R \<and> b_status (bids ! k) = ''accepted'' \<longrightarrow> j = k)"
  unfolding acceptedOn_def by (rule filter_le_one_iff)

lemma flagsOK_unique:
  "flagsOK st (acceptedFlags bids) \<Longrightarrow> length (acceptedOn R bids) \<le> 1"
  unfolding acceptedOn_flags flagsOK_def acceptedFlags_def by simp

lemma awardConsistent_iff:
  "awardConsistent s \<longleftrightarrow> flagsOK (reqStatus (st_requirements s)) (acceptedFlags (st_bids s))"
proof
  assume a: "awardConsistent s"
  show "flagsOK (reqStatus (st_requirements s)) (acceptedFlags (st_bids s))"
    unfolding flagsOK_def
  proof (intro conjI allI impI)
    fix j assume j: "j < length (acceptedFlags (st_bids s))" "snd (acceptedFlags (st_bids s) ! j)"
    then have m: "st_bids s ! j \<in> set (st_bids s)" "b_status (st_bids s ! j) = ''accepted''"
      by (simp_all add: acceptedFlags_def)
    with a have "case find (\<lambda>r. r_id r = b_requirementId (st_bids s ! j)) (st_requirements s) of
                   None \<Rightarrow> True | Some r \<Rightarrow> r_status r \<noteq> ''active''"
      unfolding awardConsistent_def list_all_iff by blast
    with j(1) show "reqStatus (st_requirements s) (fst (acceptedFlags (st_bids s) ! j)) \<noteq> Some ''active''"
      by (auto simp: reqStatus_def acceptedFlags_def split: option.splits)
  next
    fix j k assume h: "j < length (acceptedFlags (st_bids s))" "k < length (acceptedFlags (st_bids s))"
      "snd (acceptedFlags (st_bids s) ! j)" "snd (acceptedFlags (st_bids s) ! k)"
      "fst (acceptedFlags (st_bids s) ! j) = fst (acceptedFlags (st_bids s) ! k)"
    then have "st_bids s ! j \<in> set (st_bids s)" by (simp add: acceptedFlags_def)
    with a have "length (acceptedOn (b_requirementId (st_bids s ! j)) (st_bids s)) \<le> 1"
      unfolding awardConsistent_def list_all_iff by blast
    with h show "j = k"
      unfolding acceptedOn_flags by (simp add: acceptedFlags_def)
  qed
next
  assume f: "flagsOK (reqStatus (st_requirements s)) (acceptedFlags (st_bids s))"
  have one: "\<forall>b \<in> set (st_bids s). b_status b = ''accepted'' \<longrightarrow>
               (case find (\<lambda>r. r_id r = b_requirementId b) (st_requirements s) of
                  None \<Rightarrow> True | Some r \<Rightarrow> r_status r \<noteq> ''active'')"
  proof (intro ballI impI)
    fix b assume "b \<in> set (st_bids s)" "b_status b = ''accepted''"
    then obtain j where j: "j < length (st_bids s)" "st_bids s ! j = b"
      by (auto simp: in_set_conv_nth)
    with f \<open>b_status b = ''accepted''\<close>
    have "reqStatus (st_requirements s) (b_requirementId b) \<noteq> Some ''active''"
      unfolding flagsOK_def acceptedFlags_def by auto
    then show "case find (\<lambda>r. r_id r = b_requirementId b) (st_requirements s) of
                  None \<Rightarrow> True | Some r \<Rightarrow> r_status r \<noteq> ''active''"
      by (auto simp: reqStatus_def split: option.splits)
  qed
  from one flagsOK_unique [OF f] show "awardConsistent s"
    unfolding awardConsistent_def list_all_iff by blast
qed

lemma submit_effect:
  assumes "submitBid isUUID now uuid userId p s = Inr s1"
  shows "acceptedFlags (st_bids s1) = acceptedFlags (st_bids s) @ [(p_requirementId p, False)]"
    and "reqStatus (st_requirements s1) R = reqStatus (st_requirements s) R"
proof -
  from submit_appends [OF assms] show
    "acceptedFlags (st_bids s1) = acceptedFlags (st_bids s) @ [(p_requirementId p, False)]"
    by (auto simp: acceptedFlags_def)
  from assms have reqs: "st_requirements s1 =
      (case findIndex (\<lambda>r. r_id r = p_requirementId p) (st_requirements s) of
         None \<Rightarrow> st_requirements s
       | Some k \<Rightarrow> (st_requirements s)
            [k := (st_requirements s ! k)
                    \<lparr> r_bidCount := r_bidCount (st_requirements s ! k) + 1, r_updatedAt := now \<rparr>])"
    by (auto simp: submitBid_def Let_def split: if_splits option.splits integrity.splits)
  show "reqStatus (st_requirements s1) R = reqStatus (st_requirements s) R"
  proof (cases "findIndex (\<lambda>r. r_id r = p_requirementId p) (st_requirements s)")
    case None
    with reqs show ?thesis by simp
  next
    case (Some k)
    from findIndex_SomeD [OF Some] have k: "k < length (st_requirements s)" by simp
    have "reqStatus (st_requirements s) R = Some (r_status (st_requirements s ! k))"
      if "findIndex (\<lambda>x. r_id x = R) (st_requirements s) = Some k"
      using that by (simp add: reqStatus_def find_conv_findIndex)
    then show ?thesis
      using k by (simp add: reqs Some reqStatus_update)
  qed
qed

lemma updateBid_InrD:
  assumes "updateBid isUUID now userId bidId p s = Inr s1"
  shows "\<exists>i. findIndex (\<lambda>b. b_id b = bidId \<and> b_exporterId b = userId) (st_bids s) = Some i \<and>
             i < length (st_bids s) \<and> bidValidation isUUID p \<and>
             s1 = s \<lparr> st_bids := (st_bids s) [i := updatedBid now p (st_bids s ! i)] \<rparr>"
proof -
  from assms obtain i where
    f: "findIndex (\<lambda>b. b_id b = bidId \<and> b_exporterId b = userId) (st_bids s) = Some i"
    by (auto simp: updateBid_def split: option.splits)
  from findIndex_SomeD [OF f] have il: "i < length (st_bids s)" by simp
  from assms f il show ?thesis
    by (auto simp: updateBid_def Let_def split: if_splits option.splits)
qed

lemma updatedBid_keeps:
  "b_id (updatedBid now p bid) = b_id bid"
  "b_requirementId (updatedBid now p bid) = b_requirementId bid"
  "b_exporterId (updatedBid now p bid) = b_exporterId bid"
  "b_status (updatedBid now p bid) = b_status bid"
  by (simp_all add: updatedBid_def)

lemma update_effect:
  assumes "updateBid isUUID now userId bidId p s = Inr s1"
  shows "acceptedFlags (st_bids s1) = acceptedFlags (st_bids s)"
    and "st_requirements s1 = st_requirements s"
proof -
  from updateBid_InrD [OF assms] obtain i where
    i: "i < length (st_bids s)"
       "s1 = s \<lparr> st_bids := (st_bids s) [i := updatedBid now p (st_bids s ! i)] \<rparr>"
    by blast
  show "st_requirements s1 = st_requirements s" by (simp add: i(2))
  show "acceptedFlags (st_bids s1) = acceptedFlags (st_bids s)"
    using i(1) unfolding acceptedFlags_def i(2)
    by (simp add: map_update list_update_same_conv updatedBid_keeps)
qed

lemma withdraw_effect:
  assumes "withdrawBid now userId bidId s = Inr s1"
  shows "acceptedFlags (st_bids s1) = acceptedFlags (st_bids s)"
    and "reqStatus (st_requirements s1) R = reqStatus (st_requirements s) R"
proof -
  from assms obtain i where
    f: "findIndex (\<lambda>b. b_id b = bidId \<and> b_exporterId b = userId) (st_bids s) = Some i"
    by (auto simp: withdrawBid_def split: option.splits)
  from findIndex_SomeD [OF f] have il: "i < length (st_bids s)" by simp
  from assms f have act: "b_status (st_bids s ! i) = ''active''"
    by (auto simp: withdrawBid_def Let_def split: if_splits)
  note row = withdraw_keeps_row [OF assms f]
  show "acceptedFlags (st_bids s1) = acceptedFlags (st_bids s)"
    using il act unfolding acceptedFlags_def row
    by (simp add: map_update list_update_same_conv)
  from assms f have reqs: "st_requirements s1 =
      (case findIndex (\<lambda>r. r_id r = b_requirementId (st_bids s ! i)) (st_requirements s) of
         None \<Rightarrow> st_requirements s
       | Some k \<Rightarrow> (st_requirements s)
            [k := (st_requirements s ! k)
                    \<lparr> r_bidCount := max ((if r_bidCount (st_requirements s ! k) = 0 then 1
                                           else r_bidCount (st_requirements s ! k)) - 1) 0,
                      r_updatedAt := now \<rparr>])"
    by (auto simp: withdrawBid_def Let_def split: if_splits option.splits)
  show "reqStatus (st_requirements s1) R = reqStatus (st_requirements s) R"
  proof (cases "findIndex (\<lambda>r. r_id r = b_requirementId (st_bids s ! i)) (st_requirements s)")
    case None
    with reqs show ?thesis by simp
  next
    case (Some k)
    from findIndex_SomeD [OF Some] have k: "k < length (st_requirements s)" by simp
    have "reqStatus (st_requirements s) R = Some (r_status (st_requirements s ! k))"
      if "findIndex (\<lambda>x. r_id x = R) (st_requirements s) = Some k"
      using that by (simp add: reqStatus_def find_conv_findIndex)
    then show ?thesis
      using k by (simp add: reqs Some reqStatus_update)
  qed
qed

lemma acceptBid_success:
  assumes fb: "find (\<lambda>b. b_id b = bidId) (st_bids s) = Some bid"
      and ba: "b_status bid = ''active''"
      and fr: "find (\<lambda>r. r_id r = b_requirementId bid) (st_requirements s) = Some requirement"
      and ra: "r_status requirement = ''active''"
      and own: "r_importerId requirement = userId"
  shows "\<exists>i k. findIndex (\<lambda>b. b_id b = bidId) (st_bids s) = Some i \<and> st_bids s ! i = bid \<and>
           findIndex (\<lambda>r. r_id r = b_requirementId bid) (st_requirements s) = Some k \<and>
           st_requirements s ! k = requirement \<and>
           acceptBid now userId bidId s =
             Inr \<lparr> st_bids =
                     map (\<lambda>b. if b_requirementId b = b_requirementId bid \<and>
                                  b_id b \<noteq> bidId \<and> b_status b = ''active''
                               then b \<lparr> b_status := ''rejected'', b_updatedAt := now \<rparr>
                               else b)
                       ((st_bids s) [i := bid \<lparr> b_status := ''accepted'', b_updatedAt := now,
                                              b_acceptedAt := Some now \<rparr>]),
                   st_requirements =
                     (st_requirements s)
                       [k := requirement \<lparr> r_status := ''awarded'',
                                           r_awardedBidId := Some bidId,
                                           r_updatedAt := now \<rparr>] \<rparr>"
proof -
  from find_findIndex [OF fb] obtain i where
    i: "findIndex (\<lambda>b. b_id b = bidId) (st_bids s) = Some i" "st_bids s ! i = bid" by blast
  from find_findIndex [OF fr] obtain k where
    k: "findIndex (\<lambda>r. r_id r = b_requirementId bid) (st_requirements s) = Some k"
       "st_requirements s ! k = requirement" by blast
  show ?thesis
    using i k by (simp add: acceptBid_def fb fr ba ra own Let_def)
qed

lemma acceptBid_InrD:
  assumes "acceptBid now userId bidId s = Inr s1"
  shows "\<exists>bid requirement.
           find (\<lambda>b. b_id b = bidId) (st_bids s) = Some bid \<and> b_status bid = ''active'' \<and>
           find (\<lambda>r. r_id r = b_requirementId bid) (st_requirements s) = Some requirement \<and>
           r_status requirement = ''active'' \<and> r_importerId requirement = userId"
  using assms
  by (auto simp: acceptBid_def Let_def split: option.splits if_splits)



lemma accept_effect:
  assumes "acceptBid now userId bidId s = Inr s1"
  shows "\<exists>i R. i < length (st_bids s) \<and> b_requirementId (st_bids s ! i) = R \<and>
           findIndex (\<lambda>b. b_id b = bidId) (st_bids s) = Some i \<and>
           acceptedFlags (st_bids s1) = (acceptedFlags (st_bids s)) [i := (R, True)] \<and>
           reqStatus (st_requirements s) R = Some ''active'' \<and>
           reqStatus (st_requirements s1) R = Some ''awarded'' \<and>
           (\<forall>X. X \<noteq> R \<longrightarrow> reqStatus (st_requirements s1) X = reqStatus (st_requirements s) X)"
proof -
  from acceptBid_InrD [OF assms] obtain bid requirement where
    fb: "find (\<lambda>b. b_id b = bidId) (st_bids s) = Some bid" and ba: "b_status bid = ''active''"
    and fr: "find (\<lambda>r. r_id r = b_requirementId bid) (st_requirements s) = Some requirement"
    and ra: "r_status requirement = ''active''" and own: "r_importerId requirement = userId"
    by blast
  let ?acc = "bid \<lparr> b_status := ''accepted'', b_updatedAt := now, b_acceptedAt := Some now \<rparr>"
  let ?f = "\<lambda>b. if b_requirementId b = b_requirementId bid \<and> b_id b \<noteq> bidId \<and>
                    b_status b = ''active''
                 then b \<lparr> b_status := ''rejected'', b_updatedAt := now \<rparr> else b"
  let ?awd = "requirement \<lparr> r_status := ''awarded'', r_awardedBidId := Some bidId,
                            r_updatedAt := now \<rparr>"
  from acceptBid_success [OF fb ba fr ra own, of now] assms obtain i k where
    i: "findIndex (\<lambda>b. b_id b = bidId) (st_bids s) = Some i" "st_bids s ! i = bid"
    and k: "findIndex (\<lambda>r. r_id r = b_requirementId bid) (st_requirements s) = Some k"
           "st_requirements s ! k = requirement"
    and s1: "s1 = \<lparr> st_bids = map ?f ((st_bids s) [i := ?acc]),
                    st_requirements = (st_requirements s) [k := ?awd] \<rparr>"
    by auto
  from findIndex_SomeD [OF i(1)] have il: "i < length (st_bids s)" by simp
  from findIndex_SomeD [OF k(1)] have kl: "k < length (st_requirements s)"
    and rid: "r_id requirement = b_requirementId bid"
    using k(2) by auto
  have flag: "(\<lambda>b. (b_requirementId b, b_status b = ''accepted'')) \<circ> ?f =
              (\<lambda>b. (b_requirementId b, b_status b = ''accepted''))"
    by (auto simp: fun_eq_iff)
  have fl: "acceptedFlags (st_bids s1) =
              (acceptedFlags (st_bids s)) [i := (b_requirementId bid, True)]"
    unfolding acceptedFlags_def s1 by (simp add: flag map_update)
  have before: "reqStatus (st_requirements s) (b_requirementId bid) = Some ''active''"
    using fr ra by (simp add: reqStatus_def)
  have upd: "reqStatus (st_requirements s1) X =
               (if findIndex (\<lambda>x. r_id x = X) (st_requirements s) = Some k
                then Some ''awarded'' else reqStatus (st_requirements s) X)" for X
    unfolding s1 using kl k(2) by (simp add: reqStatus_update)
  have after: "reqStatus (st_requirements s1) (b_requirementId bid) = Some ''awarded''"
    using k(1) by (simp add: upd)
  have rest: "reqStatus (st_requirements s1) X = reqStatus (st_requirements s) X"
    if "X \<noteq> b_requirementId bid" for X
  proof -
    have "findIndex (\<lambda>x. r_id x = X) (st_requirements s) \<noteq> Some k"
    proof
      assume "findIndex (\<lambda>x. r_id x = X) (st_requirements s) = Some k"
      from findIndex_SomeD [OF this] k(2) rid that show False by simp
    qed
    then show ?thesis by (simp add: upd)
  qed
  from il i fl before after rest show ?thesis by blast
qed

lemma step_consistent:
  assumes "awardConsistent s"
  shows "awardConsistent (storeAfter s (submitBid isUUID now uuid userId p s))"
    and "awardConsistent (storeAfter s (updateBid isUUID now userId bidId p s))"
    and "awardConsistent (storeAfter s (withdrawBid now userId bidId s))"
    and "awardConsistent (storeAfter s (acceptBid now userId bidId s))"
proof -
  from assms have ok: "flagsOK (reqStatus (st_requirements s)) (acceptedFlags (st_bids s))"
    by (simp add: awardConsistent_iff)
  show "awardConsistent (storeAfter s (submitBid isUUID now uuid userId p s))"
  proof (cases "submitBid isUUID now uuid userId p s")
    case (Inl e)
    with assms show ?thesis by (simp add: storeAfter_def)
  next
    case (Inr s1)
    from submit_effect(2) [OF Inr]
    have "reqStatus (st_requirements s1) = reqStatus (st_requirements s)" by (rule ext)
    with submit_effect(1) [OF Inr] flagsOK_append [OF ok, of "p_requirementId p"]
    show ?thesis by (simp add: Inr storeAfter_def awardConsistent_iff)
  qed
  show "awardConsistent (storeAfter s (updateBid isUUID now userId bidId p s))"
  proof (cases "updateBid isUUID now userId bidId p s")
    case (Inl e)
    with assms show ?thesis by (simp add: storeAfter_def)
  next
    case (Inr s1)
    with update_effect [OF Inr] ok show ?thesis
      by (simp add: storeAfter_def awardConsistent_iff)
  qed
  show "awardConsistent (storeAfter s (withdrawBid now userId bidId s))"
  proof (cases "withdrawBid now userId bidId s")
    case (Inl e)
    with assms show ?thesis by (simp add: storeAfter_def)
  next
    case (Inr s1)
    from withdraw_effect(2) [OF Inr]
    have "reqStatus (st_requirements s1) = reqStatus (st_requirements s)" by (rule ext)
    with withdraw_effect(1) [OF Inr] ok show ?thesis
      by (simp add: Inr storeAfter_def awardConsistent_iff)
  qed
  show "awardConsistent (storeAfter s (acceptBid now userId bidId s))"
  proof (cases "acceptBid now userId bidId s")
    case (Inl e)
    with assms show ?thesis by (simp add: storeAfter_def)
  next
    case (Inr s1)
    from accept_effect [OF Inr] obtain i R where
      e: "i < length (st_bids s)" "b_requirementId (st_bids s ! i) = R"
         "acceptedFlags (st_bids s1) = (acceptedFlags (st_bids s)) [i := (R, True)]"
         "reqStatus (st_requirements s) R = Some ''active''"
         "reqStatus (st_requirements s1) R = Some ''awarded''"
         "\<forall>X. X \<noteq> R \<longrightarrow> reqStatus (st_requirements s1) X = reqStatus (st_requirements s) X"
      by blast
    have "flagsOK (reqStatus (st_requirements s1)) ((acceptedFlags (st_bids s)) [i := (R, True)])"
    proof (rule flagsOK_accept [OF ok e(4)])
      show "i < length (acceptedFlags (st_bids s))" using e(1) by (simp add: acceptedFlags_def)
      show "fst (acceptedFlags (st_bids s) ! i) = R" using e(1,2) by (simp add: acceptedFlags_def)
      show "reqStatus (st_requirements s1) R \<noteq> Some ''active''" using e(5) by simp
      show "\<And>X. X \<noteq> R \<Longrightarrow> reqStatus (st_requirements s1) X = reqStatus (st_requirements s) X"
        using e(6) by blast
    qed
    then show ?thesis by (simp add: Inr storeAfter_def awardConsistent_iff e(3))
  qed
qed

lemma reachable_consistent:
  assumes "reachableStore s0 s" "awardConsistent s0"
  shows "awardConsistent s"
  using assms by (induction rule: reachableStore.induct) (simp_all add: step_consistent)

lemma step_awarded:
  assumes "reqStatus (st_requirements s) R = Some ''awarded''"
  shows "reqStatus (st_requirements (storeAfter s (submitBid isUUID now uuid userId p s))) R
           = Some ''awarded''"
    and "reqStatus (st_requirements (storeAfter s (updateBid isUUID now userId bidId p s))) R
           = Some ''awarded''"
    and "reqStatus (st_requirements (storeAfter s (withdrawBid now userId bidId s))) R
           = Some ''awarded''"
    and "reqStatus (st_requirements (storeAfter s (acceptBid now userId bidId s))) R
           = Some ''awarded''"
proof -
  show "reqStatus (st_requirements (storeAfter s (submitBid isUUID now uuid userId p s))) R
           = Some ''awarded''"
    using assms submit_effect(2) [of isUUID now uuid userId p s]
    by (cases "submitBid isUUID now uuid userId p s") (simp_all add: storeAfter_def)
  show "reqStatus (st_requirements (storeAfter s (updateBid isUUID now userId bidId p s))) R
           = Some ''awarded''"
    using assms update_effect(2) [of isUUID now userId bidId p s]
    by (cases "updateBid isUUID now userId bidId p s") (simp_all add: storeAfter_def)
  show "reqStatus (st_requirements (storeAfter s (withdrawBid now userId bidId s))) R
           = Some ''awarded''"
    using assms withdraw_effect(2) [of now userId bidId s]
    by (cases "withdrawBid now userId bidId s") (simp_all add: storeAfter_def)
  show "reqStatus (st_requirements (storeAfter s (acceptBid now userId bidId s))) R
           = Some ''awarded''"
  proof (cases "acceptBid now userId bidId s")
    case (Inl e)
    with assms show ?thesis by (simp add: storeAfter_def)
  next
    case (Inr s1)
    from accept_effect [OF Inr] obtain i R' where
      e: "reqStatus (st_requirements s) R' = Some ''active''"
         "\<forall>X. X \<noteq> R' \<longrightarrow> reqStatus (st_requirements s1) X = reqStatus (st_requirements s) X"
      by blast
    from e(1) assms have "R \<noteq> R'" by auto
    with e(2) assms show ?thesis by (simp add: Inr storeAfter_def)
  qed
qed

lemma reachable_awarded:
  assumes "reachableStore s0 s" "reqStatus (st_requirements s0) R = Some ''awarded''"
  shows "reqStatus (st_requirements s) R = Some ''awarded''"
  using assms by (induction rule: reachableStore.induct) (simp_all add: step_awarded)

lemma accept_not_active:
  assumes "find (\<lambda>b. b_id b = bidId) (st_bids s) = Some bid"
      and "reqStatus (st_requirements s) (b_requirementId bid) = Some ''awarded''"
  shows "\<exists>e. acceptBid now userId bidId s = Inl e"
    and "storeAfter s (acceptBid now userId bidId s) = s"
    and "find (\<lambda>r. r_id r = b_requirementId bid) (st_requirements s) = Some requirement \<Longrightarrow>
         r_importerId requirement = userId \<Longrightarrow>
         acceptBid now userId bidId s = Inl (HttpError 400 ''Requirement is not active'')"
proof -
  from assms(2) obtain r where
    r: "find (\<lambda>r. r_id r = b_requirementId bid) (st_requirements s) = Some r"
       "r_status r = ''awarded''"
    by (auto simp: reqStatus_def)
  then show e: "\<exists>e. acceptBid now userId bidId s = Inl e"
    by (simp add: acceptBid_def assms(1))
  then show "storeAfter s (acceptBid now userId bidId s) = s"
    by (auto simp: storeAfter_def)
  show "acceptBid now userId bidId s = Inl (HttpError 400 ''Requirement is not active'')"
    if "find (\<lambda>r. r_id r = b_requirementId bid) (st_requirements s) = Some requirement"
       "r_importerId requirement = userId"
    using that r by (simp add: acceptBid_def assms(1))
qed

lemma no_accepted_consistent:
  assumes "\<forall>b \<in> set (st_bids s). b_status b \<noteq> ''accepted''"
  shows "awardConsistent s"
proof -
  have "acceptedOn R (st_bids s) = []" for R
    using assms by (auto simp: acceptedOn_def filter_empty_conv)
  with assms show ?thesis by (simp add: awardConsistent_def list_all_iff)
qed

text \<open>
  Claim C2. In every store reachable by submit, update, withdraw and accept requests
  from a store in which accepted bids sit on requirements that are no longer active,
  at most one per requirement (the module's initial store has no accepted bid), each
  requirement has at most one accepted bid. An accept for a bid whose requirement is
  awarded fails and changes nothing, with the state-conflict error "Requirement is not
  active" when the caller is the requirement's importer; and once an accept has
  succeeded, in every store reachable afterwards an accept for any bid of that
  requirement fails the same way, so the requirement is awarded once.
\<close>

theorem one_accepted_bid_per_requirement:
  assumes "awardConsistent s0" "reachableStore s0 s"
  shows "length (acceptedOn R (st_bids s)) \<le> 1
     \<and> (find (\<lambda>b. b_id b = bidId) (st_bids s) = Some bid \<longrightarrow>
        find (\<lambda>r. r_id r = b_requirementId bid) (st_requirements s) = Some requirement \<longrightarrow>
        r_status requirement = ''awarded'' \<longrightarrow>
          (\<exists>e. acceptBid now userId bidId s = Inl e) \<and>
          storeAfter s (acceptBid now userId bidId s) = s \<and>
          (r_importerId requirement = userId \<longrightarrow>
             acceptBid now userId bidId s = Inl (HttpError 400 ''Requirement is not active'')))
     \<and> (acceptBid now userId bidId s = Inr s1 \<longrightarrow>
        find (\<lambda>b. b_id b = bidId) (st_bids s) = Some bid \<longrightarrow>
        reachableStore s1 s2 \<longrightarrow>
        find (\<lambda>b. b_id b = bidId2) (st_bids s2) = Some bid2 \<longrightarrow>
        b_requirementId bid2 = b_requirementId bid \<longrightarrow>
          (\<exists>e. acceptBid now2 userId2 bidId2 s2 = Inl e) \<and>
          storeAfter s2 (acceptBid now2 userId2 bidId2 s2) = s2 \<and>
          (find (\<lambda>r. r_id r = b_requirementId bid2) (st_requirements s2) = Some requirement2 \<longrightarrow>
           r_importerId requirement2 = userId2 \<longrightarrow>
             acceptBid now2 userId2 bidId2 s2 = Inl (HttpError 400 ''Requirement is not active'')))"
proof (intro conjI impI)
  from reachable_consistent [OF assms(2,1)]
  show "length (acceptedOn R (st_bids s)) \<le> 1"
    unfolding awardConsistent_iff by (rule flagsOK_unique)
next
  assume fb: "find (\<lambda>b. b_id b = bidId) (st_bids s) = Some bid"
     and fr: "find (\<lambda>r. r_id r = b_requirementId bid) (st_requirements s) = Some requirement"
     and aw: "r_status requirement = ''awarded''"
  from fr aw have st: "reqStatus (st_requirements s) (b_requirementId bid) = Some ''awarded''"
    by (simp add: reqStatus_def)
  show "\<exists>e. acceptBid now userId bidId s = Inl e"
    by (rule accept_not_active(1) [OF fb st])
  show "storeAfter s (acceptBid now userId bidId s) = s"
    by (rule accept_not_active(2) [OF fb st])
  assume "r_importerId requirement = userId"
  with fr show "acceptBid now userId bidId s = Inl (HttpError 400 ''Requirement is not active'')"
    by (rule accept_not_active(3) [OF fb st])
next
  assume acc: "acceptBid now userId bidId s = Inr s1"
     and fb: "find (\<lambda>b. b_id b = bidId) (st_bids s) = Some bid"
     and re: "reachableStore s1 s2"
     and fb2: "find (\<lambda>b. b_id b = bidId2) (st_bids s2) = Some bid2"
     and same: "b_requirementId bid2 = b_requirementId bid"
  have "reqStatus (st_requirements s1) (b_requirementId bid) = Some ''awarded''"
  proof -
    from accept_effect [OF acc] obtain i where
      i: "findIndex (\<lambda>b. b_id b = bidId) (st_bids s) = Some i"
         "reqStatus (st_requirements s1) (b_requirementId (st_bids s ! i)) = Some ''awarded''"
      by blast
    from fb i(1) have "st_bids s ! i = bid" by (simp add: find_conv_findIndex)
    with i(2) show ?thesis by simp
  qed
  from reachable_awarded [OF re this] same
  have st: "reqStatus (st_requirements s2) (b_requirementId bid2) = Some ''awarded''" by simp
  show "\<exists>e. acceptBid now2 userId2 bidId2 s2 = Inl e"
    by (rule accept_not_active(1) [OF fb2 st])
  show "storeAfter s2 (acceptBid now2 userId2 bidId2 s2) = s2"
    by (rule accept_not_active(2) [OF fb2 st])
  assume "find (\<lambda>r. r_id r = b_requirementId bid2) (st_requirements s2) = Some requirement2"
         "r_importerId requirement2 = userId2"
  then show "acceptBid now2 userId2 bidId2 s2 = Inl (HttpError 400 ''Requirement is not active'')"
    by (rule accept_not_active(3) [OF fb2 st])
qed


lemma sampleStore_consistent: "awardConsistent sampleStore"
  by (rule no_accepted_consistent) (simp add: sampleStore_def)

lemma reachable_submitted: "reachableStore sampleStore storeSubmitted"
  unfolding storeSubmitted_def by (rule reach_submit [OF reach_init])

lemma storeSubmitted_lookup:
  "find (\<lambda>b. b_id b = ''bid-1'') (st_bids storeSubmitted) = Some (st_bids storeSubmitted ! 0)"
  "b_status (st_bids storeSubmitted ! 0) = ''active''"
  "find (\<lambda>r. r_id r = b_requirementId (st_bids storeSubmitted ! 0))
     (st_requirements storeSubmitted) = Some (st_requirements storeSubmitted ! 0)"
  "r_status (st_requirements storeSubmitted ! 0) = ''active''"
  "r_importerId (st_requirements storeSubmitted ! 0) = ''importer-1''"
  by (simp_all add: storeSubmitted_bids storeSubmitted_reqs sampleBid_sel sampleRequirement_sel)

lemma storeAccepted_lookup:
  "find (\<lambda>b. b_id b = ''bid-1'') (st_bids storeAccepted) = Some (st_bids storeAccepted ! 0)"
  "b_requirementId (st_bids storeAccepted ! 0) = b_requirementId (st_bids storeSubmitted ! 0)"
  "find (\<lambda>r. r_id r = b_requirementId (st_bids storeAccepted ! 0))
     (st_requirements storeAccepted) = Some (st_requirements storeAccepted ! 0)"
  "r_importerId (st_requirements storeAccepted ! 0) = ''importer-1''"
  "r_status (st_requirements storeAccepted ! 0) = ''awarded''"
  by (simp_all add: storeAccepted_bids storeAccepted_reqs storeSubmitted_bids sampleBid_sel
        sampleRequirement_sel)

theorem one_accepted_bid_per_requirement_witness:
  "awardConsistent sampleStore \<and> reachableStore sampleStore storeSubmitted \<and>
   acceptBid 40 ''importer-1'' ''bid-1'' storeSubmitted = Inr storeAccepted \<and>
   reachableStore storeAccepted storeAccepted \<and>
   length (acceptedOn sampleReqId (st_bids storeSubmitted)) \<le> 1 \<and>
   acceptBid 45 ''importer-1'' ''bid-1'' storeAccepted =
     Inl (HttpError 400 ''Requirement is not active'') \<and>
   storeAfter storeAccepted (acceptBid 45 ''importer-1'' ''bid-1'' storeAccepted) = storeAccepted"
  using one_accepted_bid_per_requirement
          [OF sampleStore_consistent reachable_submitted,
           of sampleReqId "''bid-1''" _ _ 40 "''importer-1''" storeAccepted storeAccepted
              "''bid-1''" "st_bids storeAccepted ! 0" 45 "''importer-1''"
              "st_requirements storeAccepted ! 0"]
        one_accepted_bid_per_requirement
          [OF sampleStore_consistent reachable_submitted,
           of _ "''bid-1''" "st_bids storeSubmitted ! 0" _ 40 "''importer-1''" storeAccepted
              storeAccepted "''bid-1''" "st_bids storeAccepted ! 0" 45 "''importer-1''"
              "st_requirements storeAccepted ! 0"]
        sampleStore_consistent reachable_submitted accept_sample storeSubmitted_lookup
        storeAccepted_lookup reach_init [of storeAccepted]
  by blast













section \<open>Properties of the order phase state machine\<close>

lemma phaseIndex_simps:
  "phaseIndex Confirmation = 0" "phaseIndex Payment = 1" "phaseIndex Production = 2"
  "phaseIndex Inspection = 3" "phaseIndex Shipping = 4" "phaseIndex Delivery = 5"
  by (simp_all add: phaseIndex_def ORDER_PHASES_def)

lemma phaseIndex_range: "0 \<le> phaseIndex ph \<and> phaseIndex ph \<le> 5"
  by (cases ph) (simp_all add: phaseIndex_simps)

lemma phaseIndex_inj: "phaseIndex a = phaseIndex b \<longleftrightarrow> a = b"
  by (cases a; cases b) (simp_all add: phaseIndex_simps)


lemma sampleOrders_eq:
  "sampleOrders =
     [\<lparr> o_id = ''order-1'', o_bidId = ''bid-1'', o_requirementId = sampleReqId,
         o_exporterId = ''exporter-1'', o_importerId = ''importer-1'',
         o_title = ''Coffee beans'', o_description = [], o_category = ''Food'',
         o_quantity = 5000, o_unit = ''kg'', o_price = 3, o_currency = ''USD'',
         o_totalValue = 15000, o_deliveryLocation = ''New York'', o_deliveryTime = 3,
         o_deliveryTimeUnit = ''weeks'', o_estimatedDelivery = 1814400050,
         o_paymentTerms = [], o_deliveryTerms = [], o_currentPhase = Confirmation,
         o_status = ''active'',
         o_phases = (\<lambda>ph. notStarted)
            (Confirmation := \<lparr> ph_status = ''pending'', ph_startedAt = Some 50,
                 ph_completedAt = None, ph_documents = [], ph_notes = [], ph_updatedBy = None \<rparr>),
         o_createdAt = 50, o_updatedAt = 50, o_cancellationReason = None,
         o_cancelledBy = None, o_cancelledAt = None \<rparr>]"
  by (simp add: sampleOrders_def sampleCreated_def createOrderFromBid_def storeAccepted_bids
      storeAccepted_reqs sampleBid_def sampleRequirement_def sampleUsers_def Let_def)

lemma sampleOrders_find:
  "findIndex (\<lambda>x. o_id x = ''order-1'' \<and> (o_exporterId x = ''exporter-1'' \<or> o_importerId x = ''exporter-1''))
     sampleOrders = Some 0"
  by (simp add: sampleOrders_eq)


lemma onPhase_sel:
  "o_currentPhase (onPhase ph f order) = o_currentPhase order"
  "o_id (onPhase ph f order) = o_id order"
  "o_exporterId (onPhase ph f order) = o_exporterId order"
  "o_importerId (onPhase ph f order) = o_importerId order"
  "o_status (onPhase ph f order) = o_status order"
  "o_phases (onPhase ph f order) ph' = (if ph' = ph then f (o_phases order ph) else o_phases order ph')"
  by (simp_all add: onPhase_def)

lemma applyUpdate_keeps:
  "o_currentPhase (applyUpdate now userId q order) = o_currentPhase order"
  "o_id (applyUpdate now userId q order) = o_id order"
  "o_exporterId (applyUpdate now userId q order) = o_exporterId order"
  "o_importerId (applyUpdate now userId q order) = o_importerId order"
  by (simp_all add: applyUpdate_def onPhase_sel Let_def split: option.splits)

lemma applyUpdate_phase_fields:
  "ph_status (o_phases (applyUpdate now userId q order) ph) = ph_status (o_phases order ph)"
  "ph_startedAt (o_phases (applyUpdate now userId q order) ph) = ph_startedAt (o_phases order ph)"
  "ph_completedAt (o_phases (applyUpdate now userId q order) ph) = ph_completedAt (o_phases order ph)"
  by (simp_all add: applyUpdate_def onPhase_sel Let_def split: option.splits)

lemma applyUpdate_updatedBy:
  "ph_updatedBy (o_phases (applyUpdate now userId q order) (o_currentPhase order)) = Some userId"
  by (simp add: applyUpdate_def onPhase_sel Let_def split: option.splits)

lemma applyUpdate_status:
  "o_status (applyUpdate now userId q order) =
     (if o_currentPhase order = Delivery \<and> ph_status (o_phases order Delivery) = ''completed''
      then ''completed'' else o_status order)"
  by (simp add: applyUpdate_def onPhase_sel Let_def split: option.splits)

lemma applyUpdate_other:
  "ph \<noteq> o_currentPhase order \<Longrightarrow>
     o_phases (applyUpdate now userId q order) ph = o_phases order ph"
  by (auto simp: applyUpdate_def onPhase_sel Let_def split: option.splits)

lemma advancePhase_cases:
  "advancePhase now userId target order =
     (if phaseIndex target < phaseIndex (o_currentPhase order)
      then Inl (HttpError 400 ''Cannot move to previous phase'')
      else if phaseIndex target > phaseIndex (o_currentPhase order) + 1
      then Inl (HttpError 400 ''Cannot skip phases'')
      else Inr ((if phaseIndex target > phaseIndex (o_currentPhase order)
                 then (\<lambda>x. onPhase target
                          (\<lambda>r. r \<lparr> ph_status := ''pending'', ph_startedAt := Some now,
                                   ph_updatedBy := Some userId \<rparr>)
                          (x \<lparr> o_currentPhase := target \<rparr>))
                 else (\<lambda>x. x))
                ((if ph_status (o_phases order (o_currentPhase order)) = ''pending''
                  then onPhase (o_currentPhase order)
                          (\<lambda>r. r \<lparr> ph_status := ''completed'', ph_completedAt := Some now,
                                   ph_updatedBy := Some userId \<rparr>)
                  else (\<lambda>x. x)) order)))"
  by (simp add: advancePhase_def phaseIndex_def Let_def)

lemma updateOrderPhase_with_phase:
  assumes "orderUpdateValidation q"
      and "findIndex (\<lambda>x. o_id x = orderId \<and> (o_exporterId x = userId \<or> o_importerId x = userId))
             orders = Some i"
      and "o_status (orders ! i) = ''active''"
      and "q_phase q = Some name" "phaseOfName name = Some target"
  shows "updateOrderPhase now userId orderId q orders =
           (case advancePhase now userId target (orders ! i) of
              Inl e \<Rightarrow> Inl e
            | Inr order1 \<Rightarrow> Inr (orders [i := applyUpdate now userId q order1]))"
  using assms by (simp add: updateOrderPhase_def Let_def)



lemma advancePhase_forward:
  assumes "phaseIndex target = phaseIndex (o_currentPhase order) + 1"
  shows "\<exists>order1. advancePhase now userId target order = Inr order1 \<and>
           o_currentPhase order1 = target \<and> o_status order1 = o_status order \<and>
           o_phases order1 target =
             (o_phases order target) \<lparr> ph_status := ''pending'', ph_startedAt := Some now,
                                        ph_updatedBy := Some userId \<rparr> \<and>
           o_phases order1 (o_currentPhase order) =
             (if ph_status (o_phases order (o_currentPhase order)) = ''pending''
              then (o_phases order (o_currentPhase order))
                     \<lparr> ph_status := ''completed'', ph_completedAt := Some now,
                       ph_updatedBy := Some userId \<rparr>
              else o_phases order (o_currentPhase order))"
proof -
  from assms have ne: "target \<noteq> o_currentPhase order" by auto
  with assms show ?thesis
    by (simp add: advancePhase_cases onPhase_def)
qed

lemma advancePhase_monotone:
  "advancePhase now userId target order = Inr order1 \<Longrightarrow>
     phaseIndex (o_currentPhase order) \<le> phaseIndex (o_currentPhase order1) \<and>
     o_id order1 = o_id order \<and> o_exporterId order1 = o_exporterId order \<and>
     o_importerId order1 = o_importerId order \<and> o_status order1 = o_status order"
  by (auto simp: advancePhase_cases onPhase_def split: if_splits)

lemma updateOrderPhase_result:
  assumes "updateOrderPhase now userId orderId q orders = Inr orders2"
  shows "\<exists>i order1. i < length orders \<and> o_status (orders ! i) = ''active'' \<and>
           orders2 = orders [i := applyUpdate now userId q order1] \<and>
           (order1 = orders ! i \<and> q_phase q = None \<or>
            (\<exists>target. advancePhase now userId target (orders ! i) = Inr order1))"
proof -
  from assms obtain i where
    f: "findIndex (\<lambda>x. o_id x = orderId \<and> (o_exporterId x = userId \<or> o_importerId x = userId))
          orders = Some i"
    by (auto simp: updateOrderPhase_def split: if_splits option.splits)
  from findIndex_SomeD [OF f] have il: "i < length orders" by simp
  from assms f il show ?thesis
    by (auto simp: updateOrderPhase_def Let_def split: if_splits option.splits sum.splits)
qed

lemma updateOrderPhase_core:
  "(orderUpdateValidation q \<longrightarrow>
    findIndex (\<lambda>x. o_id x = orderId \<and> (o_exporterId x = userId \<or> o_importerId x = userId))
      orders = Some i \<longrightarrow>
    o_status (orders ! i) = ''active'' \<longrightarrow>
    q_phase q = Some name \<longrightarrow> phaseOfName name = Some target \<longrightarrow>
      (phaseIndex target < phaseIndex (o_currentPhase (orders ! i)) \<longrightarrow>
         updateOrderPhase now userId orderId q orders =
           Inl (HttpError 400 ''Cannot move to previous phase'') \<and>
         storeAfter orders (updateOrderPhase now userId orderId q orders) = orders) \<and>
      (phaseIndex target > phaseIndex (o_currentPhase (orders ! i)) + 1 \<longrightarrow>
         updateOrderPhase now userId orderId q orders =
           Inl (HttpError 400 ''Cannot skip phases'') \<and>
         storeAfter orders (updateOrderPhase now userId orderId q orders) = orders) \<and>
      (phaseIndex target = phaseIndex (o_currentPhase (orders ! i)) + 1 \<longrightarrow>
         (\<exists>orders'. updateOrderPhase now userId orderId q orders = Inr orders' \<and>
            length orders' = length orders \<and>
            o_currentPhase (orders' ! i) = target \<and>
            o_status (orders' ! i) = ''active'' \<and>
            (ph_status (o_phases (orders ! i) (o_currentPhase (orders ! i))) = ''pending'' \<longrightarrow>
               ph_status (o_phases (orders' ! i) (o_currentPhase (orders ! i))) = ''completed'' \<and>
               ph_completedAt (o_phases (orders' ! i) (o_currentPhase (orders ! i))) = Some now \<and>
               ph_updatedBy (o_phases (orders' ! i) (o_currentPhase (orders ! i))) = Some userId) \<and>
            ph_status (o_phases (orders' ! i) target) = ''pending'' \<and>
            ph_startedAt (o_phases (orders' ! i) target) = Some now \<and>
            ph_updatedBy (o_phases (orders' ! i) target) = Some userId)))
   \<and> (updateOrderPhase now userId orderId q orders = Inr orders2 \<longrightarrow>
        length orders2 = length orders \<and>
        (\<forall>j < length orders.
           phaseIndex (o_currentPhase (orders ! j)) \<le> phaseIndex (o_currentPhase (orders2 ! j))))"
proof (intro conjI impI)
  assume v: "orderUpdateValidation q"
     and f: "findIndex (\<lambda>x. o_id x = orderId \<and> (o_exporterId x = userId \<or> o_importerId x = userId))
               orders = Some i"
     and a: "o_status (orders ! i) = ''active''"
     and p: "q_phase q = Some name" "phaseOfName name = Some target"
  note upd = updateOrderPhase_with_phase [OF v f a p, of now]
  from findIndex_SomeD [OF f] have il: "i < length orders" by simp
  {
    assume "phaseIndex target < phaseIndex (o_currentPhase (orders ! i))"
    then show "updateOrderPhase now userId orderId q orders =
                 Inl (HttpError 400 ''Cannot move to previous phase'')"
      by (simp add: upd advancePhase_cases)
    then show "storeAfter orders (updateOrderPhase now userId orderId q orders) = orders"
      by (simp add: storeAfter_def)
  }
  {
    assume "phaseIndex target > phaseIndex (o_currentPhase (orders ! i)) + 1"
    then show "updateOrderPhase now userId orderId q orders =
                 Inl (HttpError 400 ''Cannot skip phases'')"
      by (simp add: upd advancePhase_cases)
    then show "storeAfter orders (updateOrderPhase now userId orderId q orders) = orders"
      by (simp add: storeAfter_def)
  }
  {
    assume n: "phaseIndex target = phaseIndex (o_currentPhase (orders ! i)) + 1"
    then have ne: "o_currentPhase (orders ! i) \<noteq> target" by auto
    from advancePhase_forward [OF n, of now userId] obtain order1 where
      o1: "advancePhase now userId target (orders ! i) = Inr order1"
          "o_currentPhase order1 = target" "o_status order1 = o_status (orders ! i)"
          "o_phases order1 target =
             (o_phases (orders ! i) target) \<lparr> ph_status := ''pending'', ph_startedAt := Some now,
                                        ph_updatedBy := Some userId \<rparr>"
          "o_phases order1 (o_currentPhase (orders ! i)) =
             (if ph_status (o_phases (orders ! i) (o_currentPhase (orders ! i))) = ''pending''
              then (o_phases (orders ! i) (o_currentPhase (orders ! i)))
                     \<lparr> ph_status := ''completed'', ph_completedAt := Some now,
                       ph_updatedBy := Some userId \<rparr>
              else o_phases (orders ! i) (o_currentPhase (orders ! i)))"
      by blast
    let ?new = "applyUpdate now userId q order1"
    have r: "updateOrderPhase now userId orderId q orders = Inr (orders [i := ?new])"
      by (simp add: upd o1(1))
    have other: "o_phases ?new (o_currentPhase (orders ! i)) = o_phases order1 (o_currentPhase (orders ! i))"
      using ne o1(2) by (simp add: applyUpdate_other)
    have st: "o_status ?new = ''active''"
      using a o1(2,3,4) by (auto simp: applyUpdate_status)
    have ub: "ph_updatedBy (o_phases ?new target) = Some userId"
      using applyUpdate_updatedBy [of now userId q order1] o1(2) by simp
    show "\<exists>orders'. updateOrderPhase now userId orderId q orders = Inr orders' \<and>
            length orders' = length orders \<and>
            o_currentPhase (orders' ! i) = target \<and>
            o_status (orders' ! i) = ''active'' \<and>
            (ph_status (o_phases (orders ! i) (o_currentPhase (orders ! i))) = ''pending'' \<longrightarrow>
               ph_status (o_phases (orders' ! i) (o_currentPhase (orders ! i))) = ''completed'' \<and>
               ph_completedAt (o_phases (orders' ! i) (o_currentPhase (orders ! i))) = Some now \<and>
               ph_updatedBy (o_phases (orders' ! i) (o_currentPhase (orders ! i))) = Some userId) \<and>
            ph_status (o_phases (orders' ! i) target) = ''pending'' \<and>
            ph_startedAt (o_phases (orders' ! i) target) = Some now \<and>
            ph_updatedBy (o_phases (orders' ! i) target) = Some userId"
      using il st ub other o1(2,4,5)
      by (intro exI [of _ "orders [i := ?new]"])
         (simp add: r applyUpdate_keeps applyUpdate_phase_fields)
  }
next
  assume r: "updateOrderPhase now userId orderId q orders = Inr orders2"
  from updateOrderPhase_result [OF r] obtain k order1 where
    k: "k < length orders" "orders2 = orders [k := applyUpdate now userId q order1]"
       "order1 = orders ! k \<and> q_phase q = None \<or>
        (\<exists>target. advancePhase now userId target (orders ! k) = Inr order1)"
    by blast
  show "length orders2 = length orders" using k(2) by simp
  have "phaseIndex (o_currentPhase (orders ! k)) \<le> phaseIndex (o_currentPhase order1)"
    using k(3) advancePhase_monotone by auto
  then show "\<forall>j < length orders.
           phaseIndex (o_currentPhase (orders ! j)) \<le> phaseIndex (o_currentPhase (orders2 ! j))"
    using k(1,2) by (simp add: nth_list_update applyUpdate_keeps)
qed

lemma all_phases: "(\<forall>ph \<in> set ORDER_PHASES. P ph) \<longleftrightarrow> (\<forall>ph. P ph)"
proof -
  have "set ORDER_PHASES = UNIV"
  proof -
    have "ph \<in> set ORDER_PHASES" for ph by (cases ph) (simp_all add: ORDER_PHASES_def)
    then show ?thesis by blast
  qed
  then show ?thesis by simp
qed

lemma phasesConsistent_iff:
  "phasesConsistent order \<longleftrightarrow>
     (\<forall>ph. (phaseIndex ph < phaseIndex (o_currentPhase order) \<longrightarrow>
              ph_status (o_phases order ph) = ''completed'') \<and>
           (phaseIndex (o_currentPhase order) < phaseIndex ph \<longrightarrow>
              ph_status (o_phases order ph) = ''not_started'')) \<and>
     (ph_status (o_phases order (o_currentPhase order)) = ''pending'' \<or>
      ph_status (o_phases order (o_currentPhase order)) = ''completed'')"
  unfolding phasesConsistent_def list_all_iff all_phases by auto

lemma advancePhase_consistent:
  assumes "advancePhase now userId target order = Inr order1" "phasesConsistent order"
  shows "phasesConsistent order1"
proof -
  let ?c = "o_currentPhase order"
  from assms(1) have range: "phaseIndex ?c \<le> phaseIndex target" "phaseIndex target \<le> phaseIndex ?c + 1"
    by (auto simp: advancePhase_cases split: if_splits)
  show ?thesis
  proof (cases "phaseIndex target = phaseIndex ?c")
    case True
    then have t: "target = ?c" by (simp add: phaseIndex_inj)
    from assms(1) have "order1 = (if ph_status (o_phases order ?c) = ''pending''
                  then onPhase ?c (\<lambda>r. r \<lparr> ph_status := ''completed'', ph_completedAt := Some now,
                                   ph_updatedBy := Some userId \<rparr>) order else order)"
      by (auto simp: advancePhase_cases t split: if_splits)
    with assms(2) show ?thesis
      by (auto simp: phasesConsistent_iff onPhase_sel)
  next
    case False
    with range have n: "phaseIndex target = phaseIndex ?c + 1" by simp
    from advancePhase_forward [OF n, of now userId] assms(1)
    have c1: "o_currentPhase order1 = target"
      and pt: "ph_status (o_phases order1 target) = ''pending''"
      and pc: "ph_status (o_phases order1 ?c) = ''completed''"
      using assms(2) by (auto simp: phasesConsistent_iff)
    have rest: "o_phases order1 ph = o_phases order ph" if "ph \<noteq> target" "ph \<noteq> ?c" for ph
      using assms(1) n that by (auto simp: advancePhase_cases onPhase_def split: if_splits)
    show ?thesis
      unfolding phasesConsistent_iff c1
    proof (intro conjI allI impI)
      fix ph assume lt: "phaseIndex ph < phaseIndex target"
      show "ph_status (o_phases order1 ph) = ''completed''"
      proof (cases "ph = ?c")
        case True
        then show ?thesis using pc by simp
      next
        case False
        with lt n have "phaseIndex ph < phaseIndex ?c"
          using phaseIndex_inj [of ph ?c] by linarith
        moreover from lt have "ph \<noteq> target" by auto
        ultimately show ?thesis using assms(2) rest [of ph] False
          by (simp add: phasesConsistent_iff)
      qed
    next
      fix ph assume gt: "phaseIndex target < phaseIndex ph"
      then have "ph \<noteq> target" "ph \<noteq> ?c" "phaseIndex ?c < phaseIndex ph" using n by auto
      then show "ph_status (o_phases order1 ph) = ''not_started''"
        using assms(2) rest [of ph] by (simp add: phasesConsistent_iff)
    next
      show "ph_status (o_phases order1 target) = ''pending'' \<or>
            ph_status (o_phases order1 target) = ''completed''" using pt by simp
    qed
  qed
qed

lemma applyUpdate_consistent:
  "phasesConsistent (applyUpdate now userId q order) = phasesConsistent order"
  by (simp add: phasesConsistent_iff applyUpdate_keeps applyUpdate_phase_fields)

lemma create_result:
  assumes "createOrderFromBid now uuid bidId bids requirements users orders = Inr (newOrder, orders')"
  shows "orders' = orders @ [newOrder] \<and> phasesConsistent newOrder \<and>
         o_status newOrder = ''active'' \<and> o_currentPhase newOrder = Confirmation"
proof -
  from assms obtain bid where
    b: "find (\<lambda>b. b_id b = bidId \<and> b_status b = ''accepted'') bids = Some bid"
    by (cases "find (\<lambda>b. b_id b = bidId \<and> b_status b = ''accepted'') bids")
       (simp_all add: createOrderFromBid_def)
  from assms b obtain requirement where
    r: "find (\<lambda>r. r_id r = b_requirementId bid) requirements = Some requirement"
    by (cases "find (\<lambda>r. r_id r = b_requirementId bid) requirements")
       (simp_all add: createOrderFromBid_def)
  have u: "\<not> (find (\<lambda>u. u_id u = b_exporterId bid) users = None \<or>
              find (\<lambda>u. u_id u = r_importerId requirement) users = None)"
  proof
    assume "find (\<lambda>u. u_id u = b_exporterId bid) users = None \<or>
            find (\<lambda>u. u_id u = r_importerId requirement) users = None"
    with assms b r show False by (simp add: createOrderFromBid_def)
  qed
  from assms have eq: "orders' = orders @ [newOrder]"
    and c: "o_currentPhase newOrder = Confirmation"
    and st: "o_status newOrder = ''active''"
    and ph: "o_phases newOrder =
               (\<lambda>ph. notStarted)
                 (Confirmation := \<lparr> ph_status = ''pending'', ph_startedAt = Some now,
                     ph_completedAt = None, ph_documents = [], ph_notes = [],
                     ph_updatedBy = None \<rparr>)"
    using b r u by (auto simp: createOrderFromBid_def Let_def)
  have "phasesConsistent newOrder"
  proof -
    have "\<not> phaseIndex x < 0" for x using phaseIndex_range [of x] by linarith
    then show ?thesis
      by (auto simp: phasesConsistent_iff c ph notStarted_def phaseIndex_simps)
  qed
  with eq c st show ?thesis by simp
qed

lemma upload_result:
  assumes "uploadOrderDocuments now userId orderId name files orders = Inr orders2"
  shows "\<exists>i ph. i < length orders \<and>
           orders2 = orders [i := (onPhase ph
                       (\<lambda>r. r \<lparr> ph_documents := ph_documents r @ map (toDocument userId now) files,
                                ph_updatedBy := Some userId \<rparr>) (orders ! i))
                     \<lparr> o_updatedAt := now \<rparr>]"
proof -
  from assms obtain i where
    f: "findIndex (\<lambda>x. o_id x = orderId \<and> (o_exporterId x = userId \<or> o_importerId x = userId))
          orders = Some i"
    by (auto simp: uploadOrderDocuments_def split: if_splits option.splits)
  from findIndex_SomeD [OF f] have il: "i < length orders" by simp
  from assms f il show ?thesis
    by (auto simp: uploadOrderDocuments_def Let_def split: if_splits option.splits)
qed

lemma cancel_result:
  assumes "cancelOrder now userId orderId reason orders = Inr orders2"
  shows "\<exists>i. i < length orders \<and>
           orders2 = orders [i := (orders ! i)
                     \<lparr> o_status := ''cancelled'',
                       o_cancellationReason := Some (orEmpty reason),
                       o_cancelledBy := Some userId,
                       o_cancelledAt := Some now,
                       o_updatedAt := now \<rparr>]"
proof -
  from assms obtain i where
    f: "findIndex (\<lambda>x. o_id x = orderId \<and> (o_exporterId x = userId \<or> o_importerId x = userId))
          orders = Some i"
    by (auto simp: cancelOrder_def split: if_splits option.splits)
  from findIndex_SomeD [OF f] have il: "i < length orders" by simp
  from assms f il show ?thesis
    by (auto simp: cancelOrder_def Let_def split: if_splits option.splits)
qed

lemma update_consistent:
  assumes "list_all phasesConsistent orders"
  shows "list_all phasesConsistent (storeAfter orders (updateOrderPhase now userId orderId q orders))"
proof (cases "updateOrderPhase now userId orderId q orders")
  case (Inl e)
  with assms show ?thesis by (simp add: storeAfter_def)
next
  case (Inr orders2)
  from updateOrderPhase_result [OF Inr] obtain k order1 where
    k: "k < length orders" "orders2 = orders [k := applyUpdate now userId q order1]"
       "order1 = orders ! k \<and> q_phase q = None \<or>
        (\<exists>target. advancePhase now userId target (orders ! k) = Inr order1)"
    by blast
  from assms k(1) have "phasesConsistent (orders ! k)" by (simp add: list_all_length)
  with k(3) have "phasesConsistent order1" using advancePhase_consistent by blast
  then have "phasesConsistent (applyUpdate now userId q order1)"
    by (simp add: applyUpdate_consistent)
  with assms k(1,2) show ?thesis
    by (auto simp: Inr storeAfter_def list_all_length nth_list_update)
qed

lemma upload_consistent:
  assumes "list_all phasesConsistent orders"
  shows "list_all phasesConsistent
           (storeAfter orders (uploadOrderDocuments now userId orderId name files orders))"
proof (cases "uploadOrderDocuments now userId orderId name files orders")
  case (Inl e)
  with assms show ?thesis by (simp add: storeAfter_def)
next
  case (Inr orders2)
  from upload_result [OF Inr] obtain i ph where
    k: "i < length orders"
       "orders2 = orders [i := (onPhase ph
                       (\<lambda>r. r \<lparr> ph_documents := ph_documents r @ map (toDocument userId now) files,
                                ph_updatedBy := Some userId \<rparr>) (orders ! i))
                     \<lparr> o_updatedAt := now \<rparr>]"
    by blast
  from assms k(1) have "phasesConsistent (orders ! i)" by (simp add: list_all_length)
  then have "phasesConsistent ((onPhase ph
                       (\<lambda>r. r \<lparr> ph_documents := ph_documents r @ map (toDocument userId now) files,
                                ph_updatedBy := Some userId \<rparr>) (orders ! i))
                     \<lparr> o_updatedAt := now \<rparr>)"
    by (auto simp: phasesConsistent_iff onPhase_def)
  with assms k(1) show ?thesis
    by (auto simp: Inr k(2) storeAfter_def list_all_length nth_list_update)
qed

lemma cancel_consistent:
  assumes "list_all phasesConsistent orders"
  shows "list_all phasesConsistent
           (storeAfter orders (cancelOrder now userId orderId reason orders))"
proof (cases "cancelOrder now userId orderId reason orders")
  case (Inl e)
  with assms show ?thesis by (simp add: storeAfter_def)
next
  case (Inr orders2)
  from cancel_result [OF Inr] obtain i where
    k: "i < length orders"
       "orders2 = orders [i := (orders ! i)
                     \<lparr> o_status := ''cancelled'',
                       o_cancellationReason := Some (orEmpty reason),
                       o_cancelledBy := Some userId,
                       o_cancelledAt := Some now,
                       o_updatedAt := now \<rparr>]"
    by blast
  from assms k(1) have "phasesConsistent (orders ! i)" by (simp add: list_all_length)
  then have "phasesConsistent ((orders ! i)
                     \<lparr> o_status := ''cancelled'',
                       o_cancellationReason := Some (orEmpty reason),
                       o_cancelledBy := Some userId,
                       o_cancelledAt := Some now,
                       o_updatedAt := now \<rparr>)"
    by (simp add: phasesConsistent_iff)
  with assms k(1) show ?thesis
    by (auto simp: Inr k(2) storeAfter_def list_all_length nth_list_update)
qed

lemma ordersFrom_consistent:
  assumes "ordersFrom orders0 orders" "list_all phasesConsistent orders0"
  shows "list_all phasesConsistent orders"
  using assms
proof (induction rule: ordersFrom.induct)
  case orders_init
  then show ?case by simp
next
  case (orders_create orders now uuid bidId bids requirements users newOrder orders')
  with create_result [OF orders_create.hyps(2)] show ?case by simp
next
  case (orders_update orders now userId orderId q)
  then show ?case by (simp add: update_consistent)
next
  case (orders_upload orders now userId orderId name files)
  then show ?case by (simp add: upload_consistent)
next
  case (orders_cancel orders now userId orderId reason)
  then show ?case by (simp add: cancel_consistent)
qed

lemma neverBack_refl: "neverBack orders orders"
  by (simp add: neverBack_def)

lemma neverBack_trans: "neverBack a b \<Longrightarrow> neverBack b c \<Longrightarrow> neverBack a c"
  unfolding neverBack_def by (metis (no_types, lifting) order_trans less_le_trans)

lemma update_neverBack:
  "neverBack orders (storeAfter orders (updateOrderPhase now userId orderId q orders))"
proof (cases "updateOrderPhase now userId orderId q orders")
  case (Inl e)
  then show ?thesis by (simp add: storeAfter_def neverBack_refl)
next
  case (Inr orders2)
  from updateOrderPhase_result [OF Inr] obtain k order1 where
    k: "k < length orders" "orders2 = orders [k := applyUpdate now userId q order1]"
       "order1 = orders ! k \<and> q_phase q = None \<or>
        (\<exists>target. advancePhase now userId target (orders ! k) = Inr order1)"
    by blast
  have "phaseIndex (o_currentPhase (orders ! k)) \<le> phaseIndex (o_currentPhase order1) \<and>
        o_id order1 = o_id (orders ! k)"
    using k(3) advancePhase_monotone by auto
  then show ?thesis
    using k(1,2) by (simp add: Inr storeAfter_def neverBack_def nth_list_update applyUpdate_keeps)
qed

lemma upload_neverBack:
  "neverBack orders (storeAfter orders (uploadOrderDocuments now userId orderId name files orders))"
proof (cases "uploadOrderDocuments now userId orderId name files orders")
  case (Inl e)
  then show ?thesis by (simp add: storeAfter_def neverBack_refl)
next
  case (Inr orders2)
  from upload_result [OF Inr] show ?thesis
    by (auto simp: Inr storeAfter_def neverBack_def nth_list_update onPhase_def)
qed

lemma cancel_neverBack:
  "neverBack orders (storeAfter orders (cancelOrder now userId orderId reason orders))"
proof (cases "cancelOrder now userId orderId reason orders")
  case (Inl e)
  then show ?thesis by (simp add: storeAfter_def neverBack_refl)
next
  case (Inr orders2)
  from cancel_result [OF Inr] show ?thesis
    by (auto simp: Inr storeAfter_def neverBack_def nth_list_update)
qed

lemma ordersFrom_neverBack:
  assumes "ordersFrom orders0 orders"
  shows "neverBack orders0 orders"
  using assms
proof (induction rule: ordersFrom.induct)
  case orders_init
  show ?case by (rule neverBack_refl)
next
  case (orders_create orders now uuid bidId bids requirements users newOrder orders')
  from create_result [OF orders_create.hyps(2)] have "neverBack orders orders'"
    by (simp add: neverBack_def nth_append)
  with orders_create.IH show ?case by (rule neverBack_trans)
next
  case (orders_update orders now userId orderId q)
  from this(2) update_neverBack show ?case by (rule neverBack_trans)
next
  case (orders_upload orders now userId orderId name files)
  from this(2) upload_neverBack show ?case by (rule neverBack_trans)
next
  case (orders_cancel orders now userId orderId reason)
  from this(2) cancel_neverBack show ?case by (rule neverBack_trans)
qed

lemma sampleCreated_eq: "sampleCreated = Inr (sampleOrders ! 0, sampleOrders)"
  by (simp add: sampleOrders_eq)
     (simp add: sampleCreated_def createOrderFromBid_def storeAccepted_bids
      storeAccepted_reqs sampleBid_def sampleRequirement_def sampleUsers_def Let_def)

lemma reachable_sample: "reachableOrders sampleOrders"
  unfolding reachableOrders_def
  using orders_create [OF orders_init, of 50 "''order-1''" "''bid-1''" "st_bids storeAccepted"
          "st_requirements storeAccepted" sampleUsers "[]" "sampleOrders ! 0" sampleOrders]
        sampleCreated_eq
  by (simp add: sampleCreated_def)

lemma reachable_confirmed: "reachableOrders ordersConfirmed"
  unfolding reachableOrders_def ordersConfirmed_def
  using reachable_sample unfolding reachableOrders_def by (rule orders_update)

lemma phaseRequest_sel:
  "q_phase (phaseRequest name) = Some name" "q_status (phaseRequest name) = None"
  "q_notes (phaseRequest name) = None" "q_estimatedDelivery (phaseRequest name) = None"
  "q_files (phaseRequest name) = []"
  by (simp_all add: phaseRequest_def)

lemma phaseOfName_simps:
  "phaseOfName ''confirmation'' = Some Confirmation" "phaseOfName ''payment'' = Some Payment"
  "phaseOfName ''production'' = Some Production" "phaseOfName ''inspection'' = Some Inspection"
  "phaseOfName ''shipping'' = Some Shipping" "phaseOfName ''delivery'' = Some Delivery"
  by (simp_all add: phaseOfName_def)

lemma phaseRequest_valid:
  "phaseOfName name \<noteq> None \<Longrightarrow> orderUpdateValidation (phaseRequest name)"
  by (simp add: orderUpdateValidation_def phaseRequest_sel)

lemma sampleOrders_facts:
  "length sampleOrders = 1"
  "o_status (sampleOrders ! 0) = ''active''"
  "o_currentPhase (sampleOrders ! 0) = Confirmation"
  "o_phases (sampleOrders ! 0) =
     (\<lambda>ph. notStarted)
       (Confirmation := \<lparr> ph_status = ''pending'', ph_startedAt = Some 50,
           ph_completedAt = None, ph_documents = [], ph_notes = [], ph_updatedBy = None \<rparr>)"
  by (simp_all add: sampleOrders_eq)

lemma ordersConfirmed_eq:
  "ordersConfirmed =
     sampleOrders [0 := applyUpdate 60 ''exporter-1'' (phaseRequest ''confirmation'')
                 (onPhase Confirmation
                    (\<lambda>r. r \<lparr> ph_status := ''completed'', ph_completedAt := Some 60,
                             ph_updatedBy := Some ''exporter-1'' \<rparr>) (sampleOrders ! 0))]"
proof -
  have v: "orderUpdateValidation (phaseRequest ''confirmation'')"
    by (rule phaseRequest_valid) (simp add: phaseOfName_simps)
  have a: "advancePhase 60 ''exporter-1'' Confirmation (sampleOrders ! 0) =
             Inr (onPhase Confirmation
                    (\<lambda>r. r \<lparr> ph_status := ''completed'', ph_completedAt := Some 60,
                             ph_updatedBy := Some ''exporter-1'' \<rparr>) (sampleOrders ! 0))"
    by (simp add: advancePhase_cases sampleOrders_facts)
  show ?thesis
    unfolding ordersConfirmed_def
    by (simp add: updateOrderPhase_with_phase [OF v sampleOrders_find sampleOrders_facts(2)
                    phaseRequest_sel(1) phaseOfName_simps(1)] a storeAfter_def)
qed

lemma ordersConfirmed_facts:
  "length ordersConfirmed = 1"
  "o_status (ordersConfirmed ! 0) = ''active''"
  "o_currentPhase (ordersConfirmed ! 0) = Confirmation"
  "map ph_status (map (o_phases (ordersConfirmed ! 0)) ORDER_PHASES) =
     [''completed'', ''not_started'', ''not_started'', ''not_started'',
      ''not_started'', ''not_started'']"
  by (simp_all add: ordersConfirmed_eq sampleOrders_facts applyUpdate_keeps
        applyUpdate_phase_fields applyUpdate_status onPhase_sel ORDER_PHASES_def notStarted_def)

text \<open>
  Claim C8, as stated: while an order is active exactly one phase is pending. An update
  that names the phase the order is already in completes that phase and opens no other:
  the sample order, created and then updated with phase confirmation, is still active,
  its current phase is confirmation, and its six phase records read completed,
  not_started, not_started, not_started, not_started, not_started.
\<close>

theorem pending_phase_lost_counterexample:
  "reachableOrders ordersConfirmed \<and>
   o_status (ordersConfirmed ! 0) = ''active'' \<and>
   o_currentPhase (ordersConfirmed ! 0) = Confirmation \<and>
   map ph_status (map (o_phases (ordersConfirmed ! 0)) ORDER_PHASES) =
     [''completed'', ''not_started'', ''not_started'', ''not_started'',
      ''not_started'', ''not_started'']"
  using reachable_confirmed ordersConfirmed_facts by blast

text \<open>
  Claim C8, amended. For every order in every array reachable from the empty array by
  creations, phase updates, document uploads and cancellations, while the order's status
  is active: at most one phase is pending, and a pending phase is the current phase; the
  current phase is pending or completed; every phase before it in the sequence is
  completed, and every phase after it is not_started.
\<close>

theorem active_order_phase_shape:
  assumes "reachableOrders orders" "order \<in> set orders" "o_status order = ''active''"
  shows "(\<forall>ph. ph_status (o_phases order ph) = ''pending'' \<longrightarrow> ph = o_currentPhase order) \<and>
         (ph_status (o_phases order (o_currentPhase order)) = ''pending'' \<or>
          ph_status (o_phases order (o_currentPhase order)) = ''completed'') \<and>
         (\<forall>ph. phaseIndex ph < phaseIndex (o_currentPhase order) \<longrightarrow>
               ph_status (o_phases order ph) = ''completed'') \<and>
         (\<forall>ph. phaseIndex (o_currentPhase order) < phaseIndex ph \<longrightarrow>
               ph_status (o_phases order ph) = ''not_started'')"
proof -
  from assms(1) have "list_all phasesConsistent orders"
    unfolding reachableOrders_def by (rule ordersFrom_consistent) simp
  with assms(2) have "phasesConsistent order" by (simp add: list_all_iff)
  then have before: "\<forall>ph. phaseIndex ph < phaseIndex (o_currentPhase order) \<longrightarrow>
               ph_status (o_phases order ph) = ''completed''"
    and after: "\<forall>ph. phaseIndex (o_currentPhase order) < phaseIndex ph \<longrightarrow>
               ph_status (o_phases order ph) = ''not_started''"
    and cur: "ph_status (o_phases order (o_currentPhase order)) = ''pending'' \<or>
          ph_status (o_phases order (o_currentPhase order)) = ''completed''"
    unfolding phasesConsistent_iff by blast+
  have one: "\<forall>ph. ph_status (o_phases order ph) = ''pending'' \<longrightarrow> ph = o_currentPhase order"
  proof (intro allI impI, rule ccontr)
    fix ph assume p: "ph_status (o_phases order ph) = ''pending''"
       and "ph \<noteq> o_currentPhase order"
    then have "phaseIndex ph < phaseIndex (o_currentPhase order) \<or>
               phaseIndex (o_currentPhase order) < phaseIndex ph"
      using phaseIndex_inj [of ph "o_currentPhase order"] by linarith
    then show False
    proof
      assume "phaseIndex ph < phaseIndex (o_currentPhase order)"
      with before have "ph_status (o_phases order ph) = ''completed''" by blast
      with p show False by simp
    next
      assume "phaseIndex (o_currentPhase order) < phaseIndex ph"
      with after have "ph_status (o_phases order ph) = ''not_started''" by blast
      with p show False by simp
    qed
  qed
  from one cur before after show ?thesis by blast
qed

theorem active_order_phase_shape_witness:
  "reachableOrders ordersConfirmed \<and> ordersConfirmed ! 0 \<in> set ordersConfirmed \<and>
   o_status (ordersConfirmed ! 0) = ''active'' \<and>
   (ph_status (o_phases (ordersConfirmed ! 0) (o_currentPhase (ordersConfirmed ! 0))) = ''pending'' \<or>
    ph_status (o_phases (ordersConfirmed ! 0) (o_currentPhase (ordersConfirmed ! 0))) = ''completed'') \<and>
   ph_status (o_phases (ordersConfirmed ! 0) Payment) = ''not_started''"
proof -
  have len: "length ordersConfirmed = 1"
    by (rule ordersConfirmed_facts)
  then have mem: "ordersConfirmed ! 0 \<in> set ordersConfirmed" by simp
  have st: "o_status (ordersConfirmed ! 0) = ''active''"
    and c: "o_currentPhase (ordersConfirmed ! 0) = Confirmation"
    by (rule ordersConfirmed_facts)+
  have lt: "phaseIndex (o_currentPhase (ordersConfirmed ! 0)) < phaseIndex Payment"
    by (simp add: c phaseIndex_simps)
  from active_order_phase_shape [OF reachable_confirmed mem st]
  have "ph_status (o_phases (ordersConfirmed ! 0) (o_currentPhase (ordersConfirmed ! 0))) = ''pending'' \<or>
        ph_status (o_phases (ordersConfirmed ! 0) (o_currentPhase (ordersConfirmed ! 0))) = ''completed''"
    and "\<forall>ph. phaseIndex (o_currentPhase (ordersConfirmed ! 0)) < phaseIndex ph \<longrightarrow>
               ph_status (o_phases (ordersConfirmed ! 0) ph) = ''not_started''"
    by blast+
  with lt mem st reachable_confirmed show ?thesis by blast
qed





text \<open>
  Claim C7. For an active order of the caller and a valid request naming a target
  phase: a target whose index in the sequence is below the current phase's index, or
  above the current index plus one, is answered with a state-conflict error (status
  400) and the order array is left as it was; on a move to the next phase the current
  phase, if pending, is marked completed with the completion instant and the acting
  principal, and the target phase is opened as pending with its start instant. Over any
  sequence of creations, updates, uploads and cancellations every order keeps its place
  and identifier and its current-phase index never decreases.
\<close>

theorem updateOrderPhase_progression:
  "(orderUpdateValidation q \<longrightarrow>
    findIndex (\<lambda>x. o_id x = orderId \<and> (o_exporterId x = userId \<or> o_importerId x = userId))
      orders = Some i \<longrightarrow>
    o_status (orders ! i) = ''active'' \<longrightarrow>
    q_phase q = Some name \<longrightarrow> phaseOfName name = Some target \<longrightarrow>
      (phaseIndex target < phaseIndex (o_currentPhase (orders ! i)) \<longrightarrow>
         updateOrderPhase now userId orderId q orders =
           Inl (HttpError 400 ''Cannot move to previous phase'') \<and>
         storeAfter orders (updateOrderPhase now userId orderId q orders) = orders) \<and>
      (phaseIndex target > phaseIndex (o_currentPhase (orders ! i)) + 1 \<longrightarrow>
         updateOrderPhase now userId orderId q orders =
           Inl (HttpError 400 ''Cannot skip phases'') \<and>
         storeAfter orders (updateOrderPhase now userId orderId q orders) = orders) \<and>
      (phaseIndex target = phaseIndex (o_currentPhase (orders ! i)) + 1 \<longrightarrow>
         (\<exists>orders'. updateOrderPhase now userId orderId q orders = Inr orders' \<and>
            length orders' = length orders \<and>
            o_currentPhase (orders' ! i) = target \<and>
            o_status (orders' ! i) = ''active'' \<and>
            (ph_status (o_phases (orders ! i) (o_currentPhase (orders ! i))) = ''pending'' \<longrightarrow>
               ph_status (o_phases (orders' ! i) (o_currentPhase (orders ! i))) = ''completed'' \<and>
               ph_completedAt (o_phases (orders' ! i) (o_currentPhase (orders ! i))) = Some now \<and>
               ph_updatedBy (o_phases (orders' ! i) (o_currentPhase (orders ! i))) = Some userId) \<and>
            ph_status (o_phases (orders' ! i) target) = ''pending'' \<and>
            ph_startedAt (o_phases (orders' ! i) target) = Some now \<and>
            ph_updatedBy (o_phases (orders' ! i) target) = Some userId)))
   \<and> phaseIndex ph = indexOf ORDER_PHASES ph
   \<and> (ordersFrom orders orders3 \<longrightarrow> neverBack orders orders3)"
proof -
  have "phaseIndex ph = indexOf ORDER_PHASES ph" by (simp add: phaseIndex_def)
  with updateOrderPhase_core [of q orderId userId orders i name target now "[]"]
       ordersFrom_neverBack [of orders orders3]
  show ?thesis by blast
qed

theorem updateOrderPhase_progression_witness:
  "orderUpdateValidation (phaseRequest ''production'') \<and>
   findIndex (\<lambda>x. o_id x = ''order-1'' \<and>
                  (o_exporterId x = ''exporter-1'' \<or> o_importerId x = ''exporter-1''))
     sampleOrders = Some 0 \<and>
   o_status (sampleOrders ! 0) = ''active'' \<and>
   phaseIndex Production > phaseIndex (o_currentPhase (sampleOrders ! 0)) + 1 \<and>
   updateOrderPhase 60 ''exporter-1'' ''order-1'' (phaseRequest ''production'') sampleOrders =
     Inl (HttpError 400 ''Cannot skip phases'') \<and>
   ordersFrom sampleOrders ordersConfirmed \<and>
   neverBack sampleOrders ordersConfirmed"
proof -
  have v: "orderUpdateValidation (phaseRequest ''production'')"
    by (rule phaseRequest_valid) (simp add: phaseOfName_simps)
  have g: "phaseIndex Production > phaseIndex (o_currentPhase (sampleOrders ! 0)) + 1"
    by (simp add: sampleOrders_facts phaseIndex_simps)
  have o: "ordersFrom sampleOrders ordersConfirmed"
    unfolding ordersConfirmed_def by (rule orders_update [OF orders_init])
  from updateOrderPhase_progression
         [of "phaseRequest ''production''" "''order-1''" "''exporter-1''" sampleOrders 0
             "''production''" Production 60 _ ordersConfirmed]
       v sampleOrders_find sampleOrders_facts(2) phaseRequest_sel(1) phaseOfName_simps(3) g o
  show ?thesis by blast
qed

end
